theory Spec2Isabelle
  imports Complex_Main
begin

section \<open>Characters and strings as Python sees them\<close>

text \<open>
  A document is a Python \<^verbatim>\<open>str\<close>. It is modelled as a \<^typ>\<open>string\<close> whose characters are
  the code points 0 to 255, so \<^const>\<open>length\<close> counts code points as \<^verbatim>\<open>len\<close> does. The
  character classes below are those of \<^verbatim>\<open>str.isspace\<close>, \<^verbatim>\<open>\s\<close>, \<^verbatim>\<open>\w\<close>, \<^verbatim>\<open>\d\<close> and
  \<^verbatim>\<open>str.lower\<close> on that range.
\<close>

definition code :: "char \<Rightarrow> nat" where
  "code c = of_char c"

definition is_space :: "char \<Rightarrow> bool" where
  "is_space c = (let n = code c in
     (9 \<le> n \<and> n \<le> 13) \<or> (28 \<le> n \<and> n \<le> 32) \<or> n = 133 \<or> n = 160)"

definition is_digit :: "char \<Rightarrow> bool" where
  "is_digit c = (let n = code c in 48 \<le> n \<and> n \<le> 57)"

definition is_ascii_letter :: "char \<Rightarrow> bool" where
  "is_ascii_letter c = (let n = code c in (65 \<le> n \<and> n \<le> 90) \<or> (97 \<le> n \<and> n \<le> 122))"

definition is_word :: "char \<Rightarrow> bool" where
  "is_word c = (let n = code c in
     is_digit c \<or> is_ascii_letter c \<or> n = 95 \<or> n = 170 \<or> n = 178 \<or> n = 179 \<or> n = 181
     \<or> n = 185 \<or> n = 186 \<or> (188 \<le> n \<and> n \<le> 190) \<or> (192 \<le> n \<and> n \<le> 214)
     \<or> (216 \<le> n \<and> n \<le> 246) \<or> 248 \<le> n)"

definition is_terminator :: "char \<Rightarrow> bool" where
  "is_terminator c = (c = CHR ''.'' \<or> c = CHR ''!'' \<or> c = CHR ''?'')"

definition lower_char :: "char \<Rightarrow> char" where
  "lower_char c = (let n = code c in
     if (65 \<le> n \<and> n \<le> 90) \<or> (192 \<le> n \<and> n \<le> 222 \<and> n \<noteq> 215) then char_of (n + 32) else c)"

definition py_lower :: "string \<Rightarrow> string" where
  "py_lower s = map lower_char s"

text \<open>\<^verbatim>\<open>s.strip()\<close>: whitespace removed at both ends.\<close>

definition py_strip :: "string \<Rightarrow> string" where
  "py_strip s = rev (dropWhile is_space (rev (dropWhile is_space s)))"

text \<open>\<^verbatim>\<open>s.split()\<close>: the maximal runs of non-whitespace characters.\<close>

function py_split :: "string \<Rightarrow> string list" where
  "py_split s =
     (case dropWhile is_space s of
        [] \<Rightarrow> []
      | c # cs \<Rightarrow> takeWhile (\<lambda>x. \<not> is_space x) (c # cs)
                 # py_split (dropWhile (\<lambda>x. \<not> is_space x) cs))"
  by pat_completeness auto
termination
proof (relation "measure length")
  show "wf (measure length)" by simp
next
  fix s :: string and c cs
  assume h: "dropWhile is_space s = c # cs"
  have "length (dropWhile (\<lambda>x. \<not> is_space x) cs) \<le> length cs"
    by (rule length_dropWhile_le)
  moreover have "length (c # cs) \<le> length s"
    using length_dropWhile_le [of is_space s] h by simp
  ultimately show "(dropWhile (\<lambda>x. \<not> is_space x) cs, s) \<in> measure length"
    by simp
qed

text \<open>\<^verbatim>\<open>sep.join(xs)\<close>.\<close>

fun py_join :: "string \<Rightarrow> string list \<Rightarrow> string" where
  "py_join sep [] = []"
| "py_join sep [x] = x"
| "py_join sep (x # y # ys) = x @ sep @ py_join sep (y # ys)"

text \<open>
  \<^verbatim>\<open>xs[a:b]\<close> for integers: a negative bound counts from the end, and both bounds are
  clamped to the list. \<^verbatim>\<open>xs[:b]\<close> is \<^verbatim>\<open>xs[0:b]\<close>.
\<close>

definition slice_bound :: "nat \<Rightarrow> int \<Rightarrow> nat" where
  "slice_bound n k = (if k < 0 then nat (max 0 (int n + k)) else min n (nat k))"

definition py_slice :: "'a list \<Rightarrow> int \<Rightarrow> int \<Rightarrow> 'a list" where
  "py_slice xs a b =
     (let lo = slice_bound (length xs) a; hi = slice_bound (length xs) b
      in take (hi - lo) (drop lo xs))"

definition py_prefix :: "'a list \<Rightarrow> int \<Rightarrow> 'a list" where
  "py_prefix xs b = py_slice xs 0 b"

text \<open>\<^verbatim>\<open>list(dict.fromkeys(xs))\<close>: duplicates removed, the first occurrence kept.\<close>

fun dict_fromkeys :: "'a list \<Rightarrow> 'a list" where
  "dict_fromkeys [] = []"
| "dict_fromkeys (x # xs) = x # filter (\<lambda>y. y \<noteq> x) (dict_fromkeys xs)"

datatype error = ValueError | ZeroDivisionError

text \<open>
  \<^verbatim>\<open>range(0, n, step)\<close>: a zero step raises \<^verbatim>\<open>ValueError\<close>, a negative step with a
  non-negative stop is empty, a positive step counts up from 0 while below \<^verbatim>\<open>n\<close>.
\<close>

function range_up :: "nat \<Rightarrow> nat \<Rightarrow> nat \<Rightarrow> nat list" where
  "range_up i n step = (if step = 0 \<or> n \<le> i then [] else i # range_up (i + step) n step)"
  by pat_completeness auto
termination
  by (relation "measure (\<lambda>(i, n, step). n - i)") auto

definition py_range :: "nat \<Rightarrow> int \<Rightarrow> error + nat list" where
  "py_range n step =
     (if step = 0 then Inl ValueError
      else if step < 0 then Inr []
      else Inr (range_up 0 n (nat step)))"

section \<open>Regular expressions\<close>

text \<open>
  The patterns of the program, as syntax trees, and a backtracking matcher with the
  priorities of Python's \<^verbatim>\<open>re\<close>: the alternatives of \<^verbatim>\<open>|\<close> in their order, a greedy
  repetition longest first. \<open>Many p\<close> is \<^verbatim>\<open>[p]*\<close> for a character class; \<open>ChrI\<close> is a
  literal under \<^verbatim>\<open>re.IGNORECASE\<close>; \<open>WordB\<close> is \<^verbatim>\<open>\b\<close>; \<open>Eos\<close> is \<^verbatim>\<open>$\<close>; \<open>Grp\<close> is the
  capturing group (each pattern here has at most one).
\<close>

datatype rx =
    Eps
  | Chr char
  | ChrI char
  | Cls "char \<Rightarrow> bool"
  | Many "char \<Rightarrow> bool"
  | Seq rx rx
  | Alt rx rx
  | Grp rx
  | WordB
  | Eos

definition word_boundary :: "char option \<Rightarrow> string \<Rightarrow> bool" where
  "word_boundary p s =
     ((case p of None \<Rightarrow> False | Some c \<Rightarrow> is_word c)
      \<noteq> (case s of [] \<Rightarrow> False | c # _ \<Rightarrow> is_word c))"

text \<open>
  \<open>rx_run r g p s k\<close>: match \<open>r\<close> at the front of \<open>s\<close>, the character before being
  \<open>p\<close> and the group captured so far \<open>g\<close>, then continue with \<open>k\<close> on the rest;
  \<open>None\<close> when every way of matching fails.
\<close>

fun rx_run :: "rx \<Rightarrow> string option \<Rightarrow> char option \<Rightarrow> string
    \<Rightarrow> (string option \<Rightarrow> char option \<Rightarrow> string \<Rightarrow> 'a option) \<Rightarrow> 'a option" where
  "rx_run Eps g p s k = k g p s"
| "rx_run (Chr c) g p [] k = None"
| "rx_run (Chr c) g p (x # xs) k = (if x = c then k g (Some x) xs else None)"
| "rx_run (ChrI c) g p [] k = None"
| "rx_run (ChrI c) g p (x # xs) k =
     (if lower_char x = lower_char c then k g (Some x) xs else None)"
| "rx_run (Cls q) g p [] k = None"
| "rx_run (Cls q) g p (x # xs) k = (if q x then k g (Some x) xs else None)"
| "rx_run (Many q) g p [] k = k g p []"
| "rx_run (Many q) g p (x # xs) k =
     (if q x
      then (case rx_run (Many q) g (Some x) xs k of
              Some r \<Rightarrow> Some r
            | None \<Rightarrow> k g p (x # xs))
      else k g p (x # xs))"
| "rx_run (Seq a b) g p s k = rx_run a g p s (\<lambda>g' p' s'. rx_run b g' p' s' k)"
| "rx_run (Alt a b) g p s k =
     (case rx_run a g p s k of Some r \<Rightarrow> Some r | None \<Rightarrow> rx_run b g p s k)"
| "rx_run (Grp a) g p s k =
     rx_run a g p s (\<lambda>g' p' s'. k (Some (take (length s - length s') s)) p' s')"
| "rx_run WordB g p s k = (if word_boundary p s then k g p s else None)"
| "rx_run Eos g p s k = (if s = [] \<or> s = [CHR 0x0A] then k g p s else None)"

text \<open>A match at the front of \<open>s\<close>: the number of characters consumed and the group.\<close>

definition rx_match :: "rx \<Rightarrow> char option \<Rightarrow> string \<Rightarrow> (nat \<times> string option) option" where
  "rx_match r p s = rx_run r None p s (\<lambda>g p' s'. Some (length s - length s', g))"

text \<open>
  The leftmost non-overlapping matches of \<open>r\<close> in a text, as \<^verbatim>\<open>re.finditer\<close> yields
  them: (start, length, group). \<open>skip\<close> counts the characters of the last match still
  to pass; \<open>pos\<close> is the offset of \<open>s\<close> in the text. Every pattern of the program
  consumes at least one character, so no match is empty.
\<close>

fun rx_scan :: "rx \<Rightarrow> nat \<Rightarrow> char option \<Rightarrow> nat \<Rightarrow> string \<Rightarrow> (nat \<times> nat \<times> string option) list" where
  "rx_scan r skip p pos [] = []"
| "rx_scan r skip p pos (c # cs) =
     (if 0 < skip then rx_scan r (skip - 1) (Some c) (pos + 1) cs
      else (case rx_match r p (c # cs) of
              None \<Rightarrow> rx_scan r 0 (Some c) (pos + 1) cs
            | Some (n, g) \<Rightarrow> (pos, n, g) # rx_scan r (n - 1) (Some c) (pos + 1) cs))"

definition finditer :: "rx \<Rightarrow> string \<Rightarrow> (nat \<times> nat \<times> string option) list" where
  "finditer r text = rx_scan r 0 None 0 text"

text \<open>\<^verbatim>\<open>re.search(r, text)\<close> as a truth value.\<close>

definition re_search :: "rx \<Rightarrow> string \<Rightarrow> bool" where
  "re_search r text = (finditer r text \<noteq> [])"

text \<open>\<^verbatim>\<open>re.findall(r, text)\<close>: the group of each match when the pattern has one, the
  whole match otherwise.\<close>

definition re_findall :: "rx \<Rightarrow> string \<Rightarrow> string list" where
  "re_findall r text =
     map (\<lambda>(st, n, g). case g of Some t \<Rightarrow> t | None \<Rightarrow> take n (drop st text)) (finditer r text)"

text \<open>\<^verbatim>\<open>re.split(r, text)\<close> for a pattern without a group: the pieces between matches.\<close>

fun split_fields :: "string \<Rightarrow> nat \<Rightarrow> (nat \<times> nat \<times> string option) list \<Rightarrow> string list" where
  "split_fields text pos [] = [drop pos text]"
| "split_fields text pos ((st, n, g) # ms) =
     take (st - pos) (drop pos text) # split_fields text (st + n) ms"

definition re_split :: "rx \<Rightarrow> string \<Rightarrow> string list" where
  "re_split r text = split_fields text 0 (finditer r text)"

text \<open>\<^verbatim>\<open>re.sub(r, repl, text)\<close> for a replacement without group references.\<close>

fun sub_fields :: "string \<Rightarrow> string \<Rightarrow> nat \<Rightarrow> (nat \<times> nat \<times> string option) list \<Rightarrow> string" where
  "sub_fields repl text pos [] = drop pos text"
| "sub_fields repl text pos ((st, n, g) # ms) =
     take (st - pos) (drop pos text) @ repl @ sub_fields repl text (st + n) ms"

definition re_sub :: "rx \<Rightarrow> string \<Rightarrow> string \<Rightarrow> string" where
  "re_sub r repl text = sub_fields repl text 0 (finditer r text)"

text \<open>Pattern syntax: a literal string, \<^verbatim>\<open>[p]+\<close>, a sequence, a choice.\<close>

definition lit :: "string \<Rightarrow> rx" where
  "lit s = foldr (\<lambda>c r. Seq (Chr c) r) s Eps"

definition liti :: "string \<Rightarrow> rx" where
  "liti s = foldr (\<lambda>c r. Seq (ChrI c) r) s Eps"

definition plus :: "(char \<Rightarrow> bool) \<Rightarrow> rx" where
  "plus q = Seq (Cls q) (Many q)"

definition seqs :: "rx list \<Rightarrow> rx" where
  "seqs rs = foldr Seq rs Eps"

fun alts :: "rx list \<Rightarrow> rx" where
  "alts [] = Eps"
| "alts [r] = r"
| "alts (r # rs) = Alt r (alts rs)"

text \<open>\<^verbatim>\<open>[.!?]+\<close>, the sentence splitter of all three modules.\<close>

definition rx_terminators :: rx where
  "rx_terminators = plus is_terminator"

section \<open>Segmentation (\<^verbatim>\<open>text_chunking.py\<close>)\<close>

text \<open>The chunker object; \<open>chunk_method\<close> is its field \<^verbatim>\<open>method\<close>.\<close>

record chunker =
  chunk_size :: int
  overlap :: int
  chunk_method :: string

text \<open>A chunk dictionary; \<open>paragraph_count\<close> is present for paragraph chunks only.\<close>

record chunk =
  chunk_id :: nat
  content :: string
  word_count :: nat
  sentence_count :: nat
  paragraph_count :: "nat option"
  start_index :: nat
  end_index :: nat

text \<open>
  Each method is a \<^verbatim>\<open>for i in range(0, len(units), chunk_size - overlap)\<close> loop that
  appends to \<^verbatim>\<open>chunks\<close>. The loop body is a function from the chunks so far and \<open>i\<close>
  to the chunks after it; the loop is \<^const>\<open>foldl\<close> of the body over the range.
\<close>

definition words_body :: "chunker \<Rightarrow> string list \<Rightarrow> chunk list \<Rightarrow> nat \<Rightarrow> chunk list" where
  "words_body c words chunks i =
     (let chunk_words = py_slice words (int i) (int i + chunk_size c);
          content = py_join '' '' chunk_words
      in if py_strip content \<noteq> []
         then chunks @ [\<lparr>chunk_id = length chunks + 1,
                          content = py_strip content,
                          word_count = length chunk_words,
                          sentence_count = length (re_split rx_terminators content),
                          paragraph_count = None,
                          start_index = i,
                          end_index = i + length chunk_words\<rparr>]
         else chunks)"

definition chunk_by_words :: "chunker \<Rightarrow> string \<Rightarrow> error + chunk list" where
  "chunk_by_words c text =
     (let words = py_split text
      in case py_range (length words) (chunk_size c - overlap c) of
           Inl e \<Rightarrow> Inl e
         | Inr is \<Rightarrow> Inr (foldl (words_body c words) [] is))"

definition split_sentences :: "string \<Rightarrow> string list" where
  "split_sentences text =
     map py_strip (filter (\<lambda>s. py_strip s \<noteq> []) (re_split rx_terminators text))"

definition sentences_body :: "chunker \<Rightarrow> string list \<Rightarrow> chunk list \<Rightarrow> nat \<Rightarrow> chunk list" where
  "sentences_body c sentences chunks i =
     (let chunk_sentences = py_slice sentences (int i) (int i + chunk_size c);
          content = py_join ''. '' chunk_sentences @ ''.''
      in if py_strip content \<noteq> []
         then chunks @ [\<lparr>chunk_id = length chunks + 1,
                          content = py_strip content,
                          word_count = length (py_split content),
                          sentence_count = length chunk_sentences,
                          paragraph_count = None,
                          start_index = i,
                          end_index = i + length chunk_sentences\<rparr>]
         else chunks)"

definition chunk_by_sentences :: "chunker \<Rightarrow> string \<Rightarrow> error + chunk list" where
  "chunk_by_sentences c text =
     (let sentences = split_sentences text
      in case py_range (length sentences) (chunk_size c - overlap c) of
           Inl e \<Rightarrow> Inl e
         | Inr is \<Rightarrow> Inr (foldl (sentences_body c sentences) [] is))"

text \<open>\<^verbatim>\<open>\n\s*\n\<close>, the blank-line separator.\<close>

definition rx_blank_line :: rx where
  "rx_blank_line = seqs [Chr (CHR 0x0A), Many is_space, Chr (CHR 0x0A)]"

definition split_paragraphs :: "string \<Rightarrow> string list" where
  "split_paragraphs text =
     map py_strip (filter (\<lambda>p. py_strip p \<noteq> []) (re_split rx_blank_line text))"

definition paragraphs_body :: "chunker \<Rightarrow> string list \<Rightarrow> chunk list \<Rightarrow> nat \<Rightarrow> chunk list" where
  "paragraphs_body c paragraphs chunks i =
     (let chunk_paragraphs = py_slice paragraphs (int i) (int i + chunk_size c);
          content = py_join [CHR 0x0A, CHR 0x0A] chunk_paragraphs
      in if py_strip content \<noteq> []
         then chunks @ [\<lparr>chunk_id = length chunks + 1,
                          content = py_strip content,
                          word_count = length (py_split content),
                          sentence_count = length (re_split rx_terminators content),
                          paragraph_count = Some (length chunk_paragraphs),
                          start_index = i,
                          end_index = i + length chunk_paragraphs\<rparr>]
         else chunks)"

definition chunk_by_paragraphs :: "chunker \<Rightarrow> string \<Rightarrow> error + chunk list" where
  "chunk_by_paragraphs c text =
     (let paragraphs = split_paragraphs text
      in case py_range (length paragraphs) (chunk_size c - overlap c) of
           Inl e \<Rightarrow> Inl e
         | Inr is \<Rightarrow> Inr (foldl (paragraphs_body c paragraphs) [] is))"

definition process_document :: "chunker \<Rightarrow> string \<Rightarrow> error + chunk list" where
  "process_document c text =
     (if chunk_method c = ''words'' then chunk_by_words c text
      else if chunk_method c = ''sentences'' then chunk_by_sentences c text
      else if chunk_method c = ''paragraphs'' then chunk_by_paragraphs c text
      else Inl ValueError)"

text \<open>The units a method cuts the text into.\<close>

definition units :: "string \<Rightarrow> string \<Rightarrow> string list" where
  "units m text =
     (if m = ''words'' then py_split text
      else if m = ''sentences'' then split_sentences text
      else split_paragraphs text)"

section \<open>Keyword extraction (\<^verbatim>\<open>keyword_extraction.py\<close>)\<close>

definition legal_categories :: "(string \<times> string list) list" where
  "legal_categories =
    [(''contract_terms'',
        [''agreement'', ''contract'', ''covenant'', ''provision'', ''clause'',
         ''term'', ''condition'', ''stipulation'', ''arrangement'', ''understanding'']),
     (''parties'',
        [''party'', ''parties'', ''plaintiff'', ''defendant'', ''appellant'',
         ''appellee'', ''petitioner'', ''respondent'', ''landlord'', ''tenant'',
         ''lessor'', ''lessee'', ''grantor'', ''grantee'', ''buyer'', ''seller'',
         ''vendor'', ''purchaser'', ''client'', ''customer'']),
     (''legal_actions'',
        [''shall'', ''must'', ''may'', ''will'', ''should'', ''agree'', ''covenant'',
         ''warrant'', ''represent'', ''acknowledge'', ''consent'', ''waive'',
         ''release'', ''indemnify'', ''defend'', ''enforce'', ''terminate'',
         ''breach'', ''default'', ''violate'', ''comply'', ''perform'']),
     (''financial_terms'',
        [''payment'', ''fee'', ''cost'', ''expense'', ''price'', ''amount'',
         ''consideration'', ''compensation'', ''damages'', ''penalty'',
         ''interest'', ''rent'', ''deposit'', ''refund'', ''reimbursement'',
         ''liability'', ''obligation'', ''debt'', ''credit'', ''installment'']),
     (''temporal_terms'',
        [''date'', ''time'', ''period'', ''term'', ''duration'', ''deadline'',
         ''expiration'', ''commencement'', ''termination'', ''renewal'',
         ''extension'', ''notice'', ''day'', ''week'', ''month'', ''year'',
         ''annual'', ''monthly'', ''quarterly'', ''immediate'', ''upon'']),
     (''property_terms'',
        [''property'', ''premises'', ''land'', ''building'', ''structure'',
         ''real estate'', ''personal property'', ''asset'', ''title'',
         ''ownership'', ''possession'', ''use'', ''occupancy'', ''access'',
         ''easement'', ''right of way'', ''boundary'', ''lot'', ''parcel''])]"

fun first_category :: "(string \<times> string list) list \<Rightarrow> string \<Rightarrow> string" where
  "first_category [] w = ''general''"
| "first_category ((category, terms) # rest) w =
     (if w \<in> set terms then category else first_category rest w)"

definition categorize_word :: "string \<Rightarrow> string" where
  "categorize_word word = first_category legal_categories (py_lower word)"

definition stop_words :: "string list" where
  "stop_words =
    [''the'', ''a'', ''an'', ''and'', ''or'', ''but'', ''in'', ''on'', ''at'', ''to'',
     ''for'', ''of'', ''with'', ''by'', ''is'', ''are'', ''was'', ''were'', ''be'',
     ''been'', ''being'', ''have'', ''has'', ''had'', ''do'', ''does'', ''did'',
     ''will'', ''would'', ''could'', ''should'', ''may'', ''might'', ''can'',
     ''this'', ''that'', ''these'', ''those'', ''i'', ''you'', ''he'', ''she'',
     ''it'', ''we'', ''they'', ''me'', ''him'', ''her'', ''us'', ''them'']"

text \<open>\<^verbatim>\<open>\b[a-zA-Z]+\b\<close>.\<close>

definition rx_alpha_word :: rx where
  "rx_alpha_word = seqs [WordB, plus is_ascii_letter, WordB]"

text \<open>
  \<^verbatim>\<open>Counter(ws)\<close>: a dictionary of counts whose keys stand in the order of their first
  insertion, which is the order \<^verbatim>\<open>items()\<close> yields them in.
\<close>

fun counter_add :: "string \<Rightarrow> (string \<times> int) list \<Rightarrow> (string \<times> int) list" where
  "counter_add w [] = [(w, 1)]"
| "counter_add w ((k, v) # kvs) =
     (if k = w then (k, v + 1) # kvs else (k, v) # counter_add w kvs)"

definition Counter :: "string list \<Rightarrow> (string \<times> int) list" where
  "Counter ws = foldl (\<lambda>acc w. counter_add w acc) [] ws"

record keyword =
  kw_term :: string
  frequency :: int
  category :: string
  score :: int

definition filtered_words :: "string \<Rightarrow> string list" where
  "filtered_words text =
     filter (\<lambda>word. word \<notin> set stop_words \<and> 2 < length word)
       (re_findall rx_alpha_word (py_lower text))"

definition make_keyword :: "string \<times> int \<Rightarrow> keyword" where
  "make_keyword item =
     (let word = fst item; freq = snd item; category = categorize_word word
      in \<lparr>kw_term = word, frequency = freq, category = category,
          score = freq * (if category \<noteq> ''general'' then 2 else 1)\<rparr>)"

text \<open>
  \<^verbatim>\<open>keywords.sort(key=..., reverse=True)\<close> is a stable sort, descending: elements of
  equal key keep their order. It is \<^const>\<open>sort_key\<close> on the negated key.
\<close>

definition extract_statistical_keywords :: "string \<Rightarrow> int \<Rightarrow> int \<Rightarrow> keyword list" where
  "extract_statistical_keywords text min_freq max_keywords =
     (let word_freq = Counter (filtered_words text);
          frequent_words = filter (\<lambda>(word, freq). min_freq \<le> freq) word_freq;
          keywords = map make_keyword frequent_words
      in py_prefix (sort_key (\<lambda>x. - score x) keywords) max_keywords)"

text \<open>The six phrase patterns, each
  \<^verbatim>\<open>\b(trigger|...)\b[^.!?]*[.!?]\<close> under \<^verbatim>\<open>re.IGNORECASE\<close>.\<close>

definition phrase_pattern :: "string list \<Rightarrow> rx" where
  "phrase_pattern triggers =
     seqs [WordB, Grp (alts (map liti triggers)), WordB,
           Many (\<lambda>c. \<not> is_terminator c), Cls is_terminator]"

definition patterns :: "rx list" where
  "patterns =
    [phrase_pattern [''subject to'', ''in accordance with'', ''pursuant to'', ''with respect to'',
                     ''in the event of'', ''provided that'', ''notwithstanding'',
                     ''for the purpose of''],
     phrase_pattern [''the parties agree'', ''it is agreed'', ''the tenant shall'',
                     ''the landlord shall'', ''this agreement'', ''the term of'',
                     ''in consideration of''],
     phrase_pattern [''shall be responsible for'', ''shall maintain'', ''shall provide'',
                     ''shall pay'', ''shall deliver'', ''shall perform'', ''shall comply with''],
     phrase_pattern [''if and only if'', ''unless and until'', ''in the event that'',
                     ''on condition that'', ''provided however''],
     phrase_pattern [''may be terminated'', ''shall terminate'', ''upon termination'',
                     ''in case of termination'', ''termination shall''],
     phrase_pattern [''written notice'', ''notice shall be'', ''upon receipt of notice'',
                     ''notice is hereby given'']]"

text \<open>\<^verbatim>\<open>[.!?]+$\<close>.\<close>

definition rx_trailing_terminators :: rx where
  "rx_trailing_terminators = seqs [plus is_terminator, Eos]"

text \<open>The phrases one pattern contributes: the inner loop over \<^verbatim>\<open>matches\<close>.\<close>

definition pattern_phrases :: "string \<Rightarrow> rx \<Rightarrow> string list" where
  "pattern_phrases text pattern =
     filter (\<lambda>cleaned_phrase. 20 \<le> length cleaned_phrase \<and> length cleaned_phrase \<le> 200)
       (map (\<lambda>m. re_sub rx_trailing_terminators [] (py_strip m)) (re_findall pattern text))"

definition extract_key_phrases :: "string \<Rightarrow> int \<Rightarrow> string list" where
  "extract_key_phrases text max_phrases =
     (let phrases = concat (map (pattern_phrases text) patterns);
          unique_phrases = dict_fromkeys phrases
      in py_prefix unique_phrases max_phrases)"

section \<open>Summarization (\<^verbatim>\<open>summarization.py\<close>)\<close>

text \<open>
  The summarizer object. \<open>summarizer\<close> is the transformers pipeline, which is not part
  of this repository: \<open>None\<close> when it could not be loaded, otherwise a function of the
  text, \<^verbatim>\<open>max_length\<close> and \<^verbatim>\<open>min_length\<close> to the \<^verbatim>\<open>summary_text\<close> of its first result,
  or to \<open>None\<close> when the call or the reading of its result raises an exception.
\<close>

record summarizer_state =
  model_name :: string
  max_length :: int
  summarizer :: "(string \<Rightarrow> int \<Rightarrow> int \<Rightarrow> string option) option"

text \<open>\<^verbatim>\<open>\s+\<close>; \<^verbatim>\<open>\b\d+\s+(U\.S\.)\s+\d+\<close>; \<^verbatim>\<open>\b\d+\s+(F\.\d+d?)\s+\d+\<close>;
  \<^verbatim>\<open>\bWHEREAS\b\<close>; \<^verbatim>\<open>\bNOW, THEREFORE\b\<close>; \<^verbatim>\<open>\bIN WITNESS WHEREOF\b\<close>.\<close>

definition rx_whitespace :: rx where
  "rx_whitespace = plus is_space"

definition rx_us_citation :: rx where
  "rx_us_citation =
     seqs [WordB, plus is_digit, plus is_space, Grp (lit ''U.S.''), plus is_space, plus is_digit]"

definition rx_f_citation :: rx where
  "rx_f_citation =
     seqs [WordB, plus is_digit, plus is_space,
           Grp (seqs [lit ''F.'', plus is_digit, Alt (Chr CHR ''d'') Eps]),
           plus is_space, plus is_digit]"

definition rx_phrase :: "string \<Rightarrow> rx" where
  "rx_phrase s = seqs [WordB, lit s, WordB]"

definition preprocess_legal_text :: "string \<Rightarrow> string" where
  "preprocess_legal_text text =
     (let text = re_sub rx_whitespace '' '' text;
          text = re_sub rx_us_citation ''[CITATION]'' text;
          text = re_sub rx_f_citation ''[CITATION]'' text;
          text = re_sub (rx_phrase ''WHEREAS'') ''Given that'' text;
          text = re_sub (rx_phrase ''NOW, THEREFORE'') ''Therefore'' text;
          text = re_sub (rx_phrase ''IN WITNESS WHEREOF'') ''In confirmation'' text
      in py_strip text)"

definition legal_keywords :: "string list" where
  "legal_keywords =
    [''agreement'', ''contract'', ''party'', ''parties'', ''term'', ''condition'',
     ''obligation'', ''right'', ''liability'', ''breach'', ''termination'',
     ''payment'', ''consideration'', ''whereas'', ''therefore'', ''shall'',
     ''landlord'', ''tenant'', ''lease'', ''property'', ''premises'']"

text \<open>\<^verbatim>\<open>\b(this agreement|the parties|it is agreed|subject to)\b\<close>; \<^verbatim>\<open>\b\d+\b\<close>.\<close>

definition rx_boost :: rx where
  "rx_boost =
     seqs [WordB,
           Grp (alts (map lit [''this agreement'', ''the parties'', ''it is agreed'', ''subject to''])),
           WordB]"

definition rx_number :: rx where
  "rx_number = seqs [WordB, plus is_digit, WordB]"

text \<open>The score the loop over \<^verbatim>\<open>enumerate(sentences)\<close> gives one sentence.\<close>

definition sentence_score :: "string \<Rightarrow> int" where
  "sentence_score sentence =
     (let words = py_split (py_lower sentence);
          score = int (length (filter (\<lambda>word. word \<in> set legal_keywords) words));
          score = (if re_search rx_boost (py_lower sentence) then score + 2 else score);
          score = (if re_search rx_number sentence then score + 1 else score)
      in score)"

text \<open>The sentences that survive: stripped, non-empty and longer than 20 characters.\<close>

definition summary_sentences :: "string \<Rightarrow> string list" where
  "summary_sentences text =
     map py_strip
       (filter (\<lambda>s. py_strip s \<noteq> [] \<and> 20 < length (py_strip s)) (re_split rx_terminators text))"

text \<open>\<^verbatim>\<open>sentence_scores\<close>: the triples (sentence, score, position).\<close>

definition sentence_scores :: "string list \<Rightarrow> (string \<times> int \<times> nat) list" where
  "sentence_scores sentences =
     map (\<lambda>(i, sentence). (sentence, sentence_score sentence, i)) (enumerate 0 sentences)"

text \<open>
  \<^verbatim>\<open>selected_sentences\<close> after both sorts: the stable descending sort by score, the
  first \<^verbatim>\<open>num_sentences\<close> of it, sorted again by position.
\<close>

definition selected_sentences :: "string list \<Rightarrow> int \<Rightarrow> (string \<times> int \<times> nat) list" where
  "selected_sentences sentences num_sentences =
     (let sorted_scores = sort_key (\<lambda>x. - fst (snd x)) (sentence_scores sentences);
          selected = py_prefix sorted_scores num_sentences
      in sort_key (\<lambda>x. snd (snd x)) selected)"

definition extractive_summarization :: "string \<Rightarrow> int \<Rightarrow> string" where
  "extractive_summarization text num_sentences =
     (let sentences = summary_sentences text
      in if int (length sentences) \<le> num_sentences
         then py_join ''. '' sentences @ ''.''
         else py_join ''. '' (map fst (selected_sentences sentences num_sentences)) @ ''.'')"

text \<open>
  The loop over \<^verbatim>\<open>chunks\<close> inside the \<^verbatim>\<open>try\<close>: \<open>None\<close> as soon as the pipeline raises.
\<close>

fun summarize_chunks :: "(string \<Rightarrow> int \<Rightarrow> int \<Rightarrow> string option) \<Rightarrow> int \<Rightarrow> string list
    \<Rightarrow> string list option" where
  "summarize_chunks f ml [] = Some []"
| "summarize_chunks f ml (chunk # chunks) =
     (if 50 < length (py_strip chunk)
      then (case f chunk ml 30 of
              None \<Rightarrow> None
            | Some summary \<Rightarrow>
                (case summarize_chunks f ml chunks of
                   None \<Rightarrow> None
                 | Some rest \<Rightarrow> Some (summary # rest)))
      else summarize_chunks f ml chunks)"

text \<open>The body of the \<^verbatim>\<open>try\<close>: \<open>None\<close> when an exception reaches the handler.\<close>

definition abstractive_try :: "(string \<Rightarrow> int \<Rightarrow> int \<Rightarrow> string option) \<Rightarrow> int \<Rightarrow> string
    \<Rightarrow> string option" where
  "abstractive_try f ml text =
     (let max_chunk_length = 1024;
          words = py_split text;
          chunks = map (\<lambda>i. py_join '' '' (py_slice words (int i) (int i + max_chunk_length)))
                     (range_up 0 (length words) (nat max_chunk_length))
      in case summarize_chunks f ml chunks of
           None \<Rightarrow> None
         | Some chunk_summaries \<Rightarrow>
             (if 1 < length chunk_summaries
              then (let combined_summary = py_join '' '' chunk_summaries
                    in if ml < int (length (py_split combined_summary))
                       then f combined_summary ml 50
                       else Some combined_summary)
              else (case chunk_summaries of
                      [] \<Rightarrow> Some ''Unable to generate summary.''
                    | s # _ \<Rightarrow> Some s)))"

definition abstractive_summarization :: "summarizer_state \<Rightarrow> string \<Rightarrow> string" where
  "abstractive_summarization self text =
     (case summarizer self of
        None \<Rightarrow> extractive_summarization text 5
      | Some f \<Rightarrow>
          (case abstractive_try f (max_length self) text of
             Some summary \<Rightarrow> summary
           | None \<Rightarrow> extractive_summarization text 5))"

text \<open>
  The result dictionary, each key with the prefix \<open>res_\<close>. The compression ratio is
  the exact quotient that the Python float approximates.
\<close>

record summary_result =
  res_summary :: string
  res_summary_type :: string
  res_length :: string
  res_original_words :: nat
  res_summary_words :: nat
  res_compression_ratio :: real
  res_sentences :: nat

text \<open>
  \<^verbatim>\<open>generate_summary\<close> assigns to \<^verbatim>\<open>self.max_length\<close>, so it takes the object and returns
  it with the result. The division raises \<^verbatim>\<open>ZeroDivisionError\<close> on a zero divisor.
\<close>

definition generate_summary :: "summarizer_state \<Rightarrow> string \<Rightarrow> string \<Rightarrow> string
    \<Rightarrow> summarizer_state \<times> (error + summary_result)" where
  "generate_summary self text summary_type length_tier =
     (let processed_text = preprocess_legal_text text;
          (num_sentences, max_length') =
             (if length_tier = ''short'' then (3, 80)
              else if length_tier = ''medium'' then (5, 150)
              else (8, 250));
          (self, summary) =
             (if summary_type = ''extractive''
              then (self, extractive_summarization processed_text num_sentences)
              else (let original_max_length = max_length self;
                        self = self\<lparr>max_length := max_length'\<rparr>;
                        summary = abstractive_summarization self processed_text;
                        self = self\<lparr>max_length := original_max_length\<rparr>
                    in (self, summary)));
          original_words = length (py_split text);
          summary_words = length (py_split summary)
      in if original_words = 0 then (self, Inl ZeroDivisionError)
         else (self, Inr \<lparr>res_summary = summary,
                          res_summary_type = summary_type,
                          res_length = length_tier,
                          res_original_words = original_words,
                          res_summary_words = summary_words,
                          res_compression_ratio =
                            (real original_words - real summary_words) / real original_words * 100,
                          res_sentences = length (re_split rx_terminators summary)\<rparr>))"

text \<open>The text a method rebuilds from the units of one chunk, before it is stripped.\<close>

definition joined_units :: "string \<Rightarrow> string list \<Rightarrow> string" where
  "joined_units m us =
     (if m = ''words'' then py_join '' '' us
      else if m = ''sentences'' then py_join ''. '' us @ ''.''
      else py_join [CHR 0x0A, CHR 0x0A] us)"

declare py_split.simps [simp del] range_up.simps [simp del]

text \<open>No word character stands before the position: the start of the text, or a
  character outside \<^verbatim>\<open>\w\<close>.\<close>

definition no_word_before :: "char option \<Rightarrow> bool" where
  "no_word_before p = (case p of None \<Rightarrow> True | Some c \<Rightarrow> \<not> is_word c)"

text \<open>The position of the first occurrence of a word in a list of words.\<close>

definition encounter :: "'a list \<Rightarrow> 'a \<Rightarrow> nat" where
  "encounter ws w = length (takeWhile (\<lambda>x. x \<noteq> w) ws)"

text \<open>\<open>a\<close> stands before \<open>b\<close> in a descending stable sort: a greater key, or the same key
  and an earlier position.\<close>

definition before :: "('a \<Rightarrow> int) \<Rightarrow> ('a \<Rightarrow> nat) \<Rightarrow> 'a \<Rightarrow> 'a \<Rightarrow> bool" where
  "before key pos a b = (key b < key a \<or> (key a = key b \<and> pos a < pos b))"

text \<open>What the loop of \<^const>\<open>Counter\<close> keeps true of its keys, \<open>pre\<close> being the words added.\<close>

definition keys_in_order :: "string list \<Rightarrow> (string \<times> int) list \<Rightarrow> bool" where
  "keys_in_order pre acc =
     (set (map fst acc) = set pre
      \<and> sorted_wrt (\<lambda>a b. encounter pre a < encounter pre b) (map fst acc))"

section \<open>Facts about strings, ranges and slices\<close>

lemma py_split_Nil: "dropWhile is_space s = [] \<Longrightarrow> py_split s = []"
  by (subst py_split.simps) (simp del: dropWhile_eq_Nil_conv)

lemma py_split_Cons:
  "dropWhile is_space s = c # cs \<Longrightarrow>
   py_split s = takeWhile (\<lambda>x. \<not> is_space x) (c # cs) # py_split (dropWhile (\<lambda>x. \<not> is_space x) cs)"
  by (subst py_split.simps) simp

lemma py_split_words:
  "w \<in> set (py_split s) \<Longrightarrow> w \<noteq> [] \<and> (\<forall>c \<in> set w. \<not> is_space c)"
proof (induction s rule: py_split.induct)
  case (1 s)
  show ?case
  proof (cases "dropWhile is_space s")
    case Nil
    with 1(2) show ?thesis by (simp add: py_split_Nil del: dropWhile_eq_Nil_conv)
  next
    case (Cons c cs)
    have c: "\<not> is_space c"
      using hd_dropWhile [of is_space s] Cons by simp
    from 1(2) have "w = takeWhile (\<lambda>x. \<not> is_space x) (c # cs)
        \<or> w \<in> set (py_split (dropWhile (\<lambda>x. \<not> is_space x) cs))"
      unfolding py_split_Cons [OF Cons] by simp
    then show ?thesis
    proof
      assume w: "w = takeWhile (\<lambda>x. \<not> is_space x) (c # cs)"
      then have "\<forall>x \<in> set w. \<not> is_space x" by (auto dest: set_takeWhileD)
      moreover have "w \<noteq> []" using w c by simp
      ultimately show ?thesis by simp
    next
      assume "w \<in> set (py_split (dropWhile (\<lambda>x. \<not> is_space x) cs))"
      then show ?thesis by (rule "1.IH" [OF Cons])
    qed
  qed
qed

lemma py_split_empty_iff: "py_split s = [] \<longleftrightarrow> (\<forall>c \<in> set s. is_space c)"
proof (cases "dropWhile is_space s")
  case Nil
  then show ?thesis using py_split_Nil [OF Nil] by simp
next
  case (Cons c cs)
  then have "\<not> (\<forall>c \<in> set s. is_space c)"
    using dropWhile_eq_Nil_conv [of is_space s] by simp
  then show ?thesis by (simp add: py_split_Cons [OF Cons])
qed

lemma strip_empty_iff: "py_strip s = [] \<longleftrightarrow> (\<forall>c \<in> set s. is_space c)"
proof -
  have "(\<forall>c \<in> set (dropWhile is_space s). is_space c) \<longleftrightarrow> (\<forall>c \<in> set s. is_space c)"
  proof
    assume h: "\<forall>c \<in> set (dropWhile is_space s). is_space c"
    have "dropWhile is_space s = []"
    proof (rule ccontr)
      assume ne: "dropWhile is_space s \<noteq> []"
      then have "\<not> is_space (hd (dropWhile is_space s))" by (rule hd_dropWhile)
      moreover have "hd (dropWhile is_space s) \<in> set (dropWhile is_space s)"
        using ne by (rule hd_in_set)
      ultimately show False using h by blast
    qed
    then show "\<forall>c \<in> set s. is_space c" by simp
  next
    assume "\<forall>c \<in> set s. is_space c"
    then show "\<forall>c \<in> set (dropWhile is_space s). is_space c"
      by (auto dest: set_dropWhileD)
  qed
  then show ?thesis
    by (simp add: py_strip_def)
qed

lemma range_up_Nil: "n \<le> i \<Longrightarrow> range_up i n step = []"
  by (simp add: range_up.simps)

lemma range_up_bound: "j \<in> set (range_up i n step) \<Longrightarrow> j < n"
proof (induction i n step rule: range_up.induct)
  case (1 i n step)
  then show ?case
    by (subst (asm) range_up.simps) (auto split: if_splits)
qed

lemma range_up_mono:
  "0 < s2 \<Longrightarrow> s2 \<le> s1 \<Longrightarrow> i' \<le> i \<Longrightarrow> length (range_up i n s1) \<le> length (range_up i' n s2)"
proof (induction i n s1 arbitrary: i' rule: range_up.induct)
  case (1 i n s1)
  show ?case
  proof (cases "n \<le> i")
    case True
    then show ?thesis by (simp add: range_up_Nil)
  next
    case False
    with 1 have a: "\<not> (s1 = 0 \<or> n \<le> i)" and b: "\<not> (s2 = 0 \<or> n \<le> i')" by auto
    have "length (range_up (i + s1) n s1) \<le> length (range_up (i' + s2) n s2)"
      using 1 a by (intro "1.IH") auto
    then show ?thesis
      using a b by (simp add: range_up.simps [of i] range_up.simps [of i'])
  qed
qed

lemma strip_has_nonspace:
  assumes "py_strip s \<noteq> []"
  shows "\<exists>c \<in> set (py_strip s). \<not> is_space c"
proof -
  let ?d = "dropWhile is_space (rev (dropWhile is_space s))"
  from assms have ne: "?d \<noteq> []" by (simp add: py_strip_def)
  then have "\<not> is_space (hd ?d)" by (rule hd_dropWhile)
  moreover have "hd ?d \<in> set ?d" using ne by (rule hd_in_set)
  ultimately show ?thesis unfolding py_strip_def set_rev by blast
qed

lemma set_py_join: "x \<in> set xs \<Longrightarrow> set x \<subseteq> set (py_join sep xs)"
  by (induction sep xs rule: py_join.induct) auto

lemma py_slice_all: "int (length xs) \<le> k \<Longrightarrow> py_slice xs 0 k = xs"
  by (simp add: py_slice_def slice_bound_def)

lemma py_slice_window:
  assumes "i < length xs" "0 < k"
  shows "py_slice xs (int i) (int i + k) = take (nat k) (drop i xs)"
proof -
  have lo: "slice_bound (length xs) (int i) = i"
    using assms by (simp add: slice_bound_def)
  have hi: "slice_bound (length xs) (int i + k) = min (length xs) (i + nat k)"
    using assms by (simp add: slice_bound_def nat_add_distrib)
  have "take (min (length xs) (i + nat k) - i) (drop i xs) = take (nat k) (drop i xs)"
    using assms by (simp add: min_def)
  then show ?thesis
    by (simp add: py_slice_def lo hi)
qed

lemma has_nonspace_join:
  assumes "x \<in> set xs" "\<exists>c \<in> set x. \<not> is_space c"
  shows "py_strip (py_join sep xs) \<noteq> []"
  using assms set_py_join [of x xs sep] by (auto simp: strip_empty_iff)

lemma dot_not_space: "\<not> is_space CHR ''.''"
  by (simp add: is_space_def code_def)

lemma sentence_content_nonempty: "py_strip (s @ ''.'') \<noteq> []"
  using dot_not_space by (auto simp: strip_empty_iff)

lemma word_has_nonspace: "w \<in> set (py_split text) \<Longrightarrow> \<exists>c \<in> set w. \<not> is_space c"
  using py_split_words [of w "text"] by (cases w) auto

lemma paragraph_has_nonspace: "p \<in> set (split_paragraphs text) \<Longrightarrow> \<exists>c \<in> set p. \<not> is_space c"
  by (auto simp: split_paragraphs_def intro: strip_has_nonspace)

text \<open>A window that starts inside the list and has a positive size is not empty.\<close>

lemma window_nonempty:
  assumes "i < length xs" "0 < k"
  shows "py_slice xs (int i) (int i + k) \<noteq> []"
    and "set (py_slice xs (int i) (int i + k)) \<subseteq> set xs"
proof -
  have e: "py_slice xs (int i) (int i + k) = take (nat k) (drop i xs)"
    using assms by (rule py_slice_window)
  show "py_slice xs (int i) (int i + k) \<noteq> []"
    using assms by (simp add: e)
  show "set (py_slice xs (int i) (int i + k)) \<subseteq> set xs"
    unfolding e by (meson set_take_subset set_drop_subset subset_trans)
qed

lemma window_content_nonempty:
  assumes "i < length xs" "0 < k" "\<forall>x \<in> set xs. \<exists>c \<in> set x. \<not> is_space c"
  shows "py_strip (py_join sep (py_slice xs (int i) (int i + k))) \<noteq> []"
proof -
  let ?w = "py_slice xs (int i) (int i + k)"
  from window_nonempty [OF assms(1,2)] obtain x where x: "x \<in> set ?w" "x \<in> set xs"
    by (cases ?w) auto
  with assms(3) have "\<exists>c \<in> set x. \<not> is_space c" by blast
  with x(1) show ?thesis by (rule has_nonspace_join)
qed

lemma words_body_append:
  assumes "i < length (py_split text)" "0 < chunk_size c"
  shows "length (words_body c (py_split text) chunks i) = Suc (length chunks)"
proof -
  have "py_strip (py_join '' '' (py_slice (py_split text) (int i) (int i + chunk_size c))) \<noteq> []"
    using assms word_has_nonspace by (intro window_content_nonempty) auto
  then show ?thesis
    by (simp add: words_body_def Let_def)
qed

lemma words_loop_length:
  assumes "\<forall>i \<in> set is. i < length (py_split text)" "0 < chunk_size c"
  shows "length (foldl (words_body c (py_split text)) chunks is) = length chunks + length is"
  using assms
proof (induction "is" arbitrary: chunks)
  case Nil
  then show ?case by simp
next
  case (Cons i "is")
  then show ?case by (simp add: words_body_append)
qed

lemma chunk_by_words_count:
  assumes "0 < chunk_size c" "overlap c < chunk_size c"
  shows "\<exists>chunks. chunk_by_words c text = Inr chunks
          \<and> length chunks = length (range_up 0 (length (py_split text)) (nat (chunk_size c - overlap c)))"
proof -
  let ?r = "range_up 0 (length (py_split text)) (nat (chunk_size c - overlap c))"
  have r: "py_range (length (py_split text)) (chunk_size c - overlap c) = Inr ?r"
    using assms by (simp add: py_range_def)
  have "\<forall>i \<in> set ?r. i < length (py_split text)"
    by (auto dest: range_up_bound)
  then have "length (foldl (words_body c (py_split text)) [] ?r) = length ?r"
    using assms(1) by (simp add: words_loop_length)
  then show ?thesis
    by (simp add: chunk_by_words_def r Let_def)
qed

lemma range_up_head:
  "0 < n \<Longrightarrow> 0 < step \<Longrightarrow> range_up 0 n step = 0 # range_up step n step"
  by (simp add: range_up.simps [of 0])

lemma py_range_head:
  assumes "0 < n" "0 < step"
  shows "py_range n step = Inr (0 # range_up (nat step) n (nat step))"
  using assms by (simp add: py_range_def range_up_head)

lemma loop_prefix:
  assumes "\<And>chunks i. \<exists>zs. body chunks i = chunks @ zs"
  shows "\<exists>ys. foldl body chunks is = chunks @ ys"
proof (induction "is" arbitrary: chunks)
  case Nil
  then show ?case by simp
next
  case (Cons i "is")
  obtain zs where zs: "body chunks i = chunks @ zs"
    using assms by blast
  obtain ys where "foldl body (chunks @ zs) is = (chunks @ zs) @ ys"
    using Cons [of "chunks @ zs"] by blast
  then show ?case
    by (simp add: zs)
qed

lemma words_loop_prefix: "\<exists>ys. foldl (words_body c ws) chunks is = chunks @ ys"
  by (rule loop_prefix) (simp add: words_body_def Let_def)

lemma sentences_loop_prefix: "\<exists>ys. foldl (sentences_body c ws) chunks is = chunks @ ys"
  by (rule loop_prefix) (simp add: sentences_body_def Let_def)

lemma paragraphs_loop_prefix: "\<exists>ys. foldl (paragraphs_body c ws) chunks is = chunks @ ys"
  by (rule loop_prefix) (simp add: paragraphs_body_def Let_def)

text \<open>The first iteration, when the whole list fits into the window.\<close>

lemma first_window:
  assumes "int (length us) \<le> k"
  shows "py_slice us (int 0) (int 0 + k) = us"
  using assms by (simp add: py_slice_all)

lemma first_content_nonempty:
  assumes "us \<noteq> []" "\<forall>u \<in> set us. \<exists>c \<in> set u. \<not> is_space c"
  shows "py_strip (py_join sep us) \<noteq> []"
proof -
  from assms(1) obtain u where u: "u \<in> set us" by (cases us) auto
  with assms(2) have "\<exists>c \<in> set u. \<not> is_space c" by blast
  with u show ?thesis by (rule has_nonspace_join)
qed

lemma words_first:
  assumes "py_split text \<noteq> []" "int (length (py_split text)) \<le> chunk_size c"
  shows "\<exists>ch. words_body c (py_split text) [] 0 = [ch] \<and> chunk_id ch = 1 \<and> start_index ch = 0
           \<and> end_index ch = length (py_split text)
           \<and> content ch = py_strip (py_join '' '' (py_split text))"
proof -
  have "py_strip (py_join '' '' (py_split text)) \<noteq> []"
    using assms(1) word_has_nonspace by (intro first_content_nonempty) auto
  then show ?thesis
    using first_window [OF assms(2)] by (simp add: words_body_def Let_def)
qed

lemma sentences_first:
  assumes "int (length (split_sentences text)) \<le> chunk_size c"
  shows "\<exists>ch. sentences_body c (split_sentences text) [] 0 = [ch] \<and> chunk_id ch = 1
           \<and> start_index ch = 0 \<and> end_index ch = length (split_sentences text)
           \<and> content ch = py_strip (py_join ''. '' (split_sentences text) @ ''.'')"
  using first_window [OF assms] sentence_content_nonempty
  by (simp add: sentences_body_def Let_def)

lemma paragraphs_first:
  assumes "split_paragraphs text \<noteq> []" "int (length (split_paragraphs text)) \<le> chunk_size c"
  shows "\<exists>ch. paragraphs_body c (split_paragraphs text) [] 0 = [ch] \<and> chunk_id ch = 1
           \<and> start_index ch = 0 \<and> end_index ch = length (split_paragraphs text)
           \<and> content ch = py_strip (py_join [CHR 0x0A, CHR 0x0A] (split_paragraphs text))"
proof -
  have "py_strip (py_join [CHR 0x0A, CHR 0x0A] (split_paragraphs text)) \<noteq> []"
    using assms(1) paragraph_has_nonspace by (intro first_content_nonempty) auto
  then show ?thesis
    using first_window [OF assms(2)] by (simp add: paragraphs_body_def Let_def)
qed

lemma chunk_by_words_first:
  assumes "overlap c < chunk_size c" "py_split text \<noteq> []"
    "int (length (py_split text)) \<le> chunk_size c"
  shows "\<exists>ch rest. chunk_by_words c text = Inr (ch # rest) \<and> chunk_id ch = 1 \<and> start_index ch = 0
           \<and> end_index ch = length (py_split text)
           \<and> content ch = py_strip (py_join '' '' (py_split text))
           \<and> (int (length (py_split text)) \<le> chunk_size c - overlap c \<longrightarrow> rest = [])"
proof -
  let ?us = "py_split text"
  let ?st = "nat (chunk_size c - overlap c)"
  obtain ch where ch: "words_body c ?us [] 0 = [ch]" "chunk_id ch = 1" "start_index ch = 0"
      "end_index ch = length ?us" "content ch = py_strip (py_join '' '' ?us)"
    using words_first [OF assms(2,3)] by blast
  obtain rest where rest: "foldl (words_body c ?us) [ch] (range_up ?st (length ?us) ?st) = [ch] @ rest"
    using words_loop_prefix by blast
  have r: "py_range (length ?us) (chunk_size c - overlap c) = Inr (0 # range_up ?st (length ?us) ?st)"
    using assms by (intro py_range_head) auto
  have e: "chunk_by_words c text = Inr (ch # rest)"
    using rest ch(1) by (simp add: chunk_by_words_def Let_def r)
  have "rest = []" if "int (length ?us) \<le> chunk_size c - overlap c"
  proof -
    from that have "range_up ?st (length ?us) ?st = []" by (intro range_up_Nil) linarith
    with rest show ?thesis by simp
  qed
  with e ch show ?thesis by blast
qed

lemma chunk_by_sentences_first:
  assumes "overlap c < chunk_size c" "split_sentences text \<noteq> []"
    "int (length (split_sentences text)) \<le> chunk_size c"
  shows "\<exists>ch rest. chunk_by_sentences c text = Inr (ch # rest) \<and> chunk_id ch = 1
           \<and> start_index ch = 0 \<and> end_index ch = length (split_sentences text)
           \<and> content ch = py_strip (py_join ''. '' (split_sentences text) @ ''.'')
           \<and> (int (length (split_sentences text)) \<le> chunk_size c - overlap c \<longrightarrow> rest = [])"
proof -
  let ?us = "split_sentences text"
  let ?st = "nat (chunk_size c - overlap c)"
  obtain ch where ch: "sentences_body c ?us [] 0 = [ch]" "chunk_id ch = 1" "start_index ch = 0"
      "end_index ch = length ?us" "content ch = py_strip (py_join ''. '' ?us @ ''.'')"
    using sentences_first [OF assms(3)] by blast
  obtain rest where rest:
      "foldl (sentences_body c ?us) [ch] (range_up ?st (length ?us) ?st) = [ch] @ rest"
    using sentences_loop_prefix by blast
  have r: "py_range (length ?us) (chunk_size c - overlap c) = Inr (0 # range_up ?st (length ?us) ?st)"
    using assms by (intro py_range_head) auto
  have e: "chunk_by_sentences c text = Inr (ch # rest)"
    using rest ch(1) by (simp add: chunk_by_sentences_def Let_def r)
  have "rest = []" if "int (length ?us) \<le> chunk_size c - overlap c"
  proof -
    from that have "range_up ?st (length ?us) ?st = []" by (intro range_up_Nil) linarith
    with rest show ?thesis by simp
  qed
  with e ch show ?thesis by blast
qed

lemma chunk_by_paragraphs_first:
  assumes "overlap c < chunk_size c" "split_paragraphs text \<noteq> []"
    "int (length (split_paragraphs text)) \<le> chunk_size c"
  shows "\<exists>ch rest. chunk_by_paragraphs c text = Inr (ch # rest) \<and> chunk_id ch = 1
           \<and> start_index ch = 0 \<and> end_index ch = length (split_paragraphs text)
           \<and> content ch = py_strip (py_join [CHR 0x0A, CHR 0x0A] (split_paragraphs text))
           \<and> (int (length (split_paragraphs text)) \<le> chunk_size c - overlap c \<longrightarrow> rest = [])"
proof -
  let ?us = "split_paragraphs text"
  let ?st = "nat (chunk_size c - overlap c)"
  obtain ch where ch: "paragraphs_body c ?us [] 0 = [ch]" "chunk_id ch = 1" "start_index ch = 0"
      "end_index ch = length ?us" "content ch = py_strip (py_join [CHR 0x0A, CHR 0x0A] ?us)"
    using paragraphs_first [OF assms(2,3)] by blast
  obtain rest where rest:
      "foldl (paragraphs_body c ?us) [ch] (range_up ?st (length ?us) ?st) = [ch] @ rest"
    using paragraphs_loop_prefix by blast
  have r: "py_range (length ?us) (chunk_size c - overlap c) = Inr (0 # range_up ?st (length ?us) ?st)"
    using assms by (intro py_range_head) auto
  have e: "chunk_by_paragraphs c text = Inr (ch # rest)"
    using rest ch(1) by (simp add: chunk_by_paragraphs_def Let_def r)
  have "rest = []" if "int (length ?us) \<le> chunk_size c - overlap c"
  proof -
    from that have "range_up ?st (length ?us) ?st = []" by (intro range_up_Nil) linarith
    with rest show ?thesis by simp
  qed
  with e ch show ?thesis by blast
qed

lemma known_method_zero_step:
  assumes "chunk_method c = ''words'' \<or> chunk_method c = ''sentences'' \<or> chunk_method c = ''paragraphs''"
    and "overlap c = chunk_size c"
  shows "process_document c text = Inl ValueError"
  using assms
  by (auto simp: process_document_def chunk_by_words_def chunk_by_sentences_def
      chunk_by_paragraphs_def py_range_def Let_def)

lemma known_method_negative_step:
  assumes "chunk_method c = ''words'' \<or> chunk_method c = ''sentences'' \<or> chunk_method c = ''paragraphs''"
    and "chunk_size c < overlap c"
  shows "process_document c text = Inr []"
  using assms
  by (auto simp: process_document_def chunk_by_words_def chunk_by_sentences_def
      chunk_by_paragraphs_def py_range_def Let_def)

lemma py_prefix_Nil: "py_prefix [] b = []"
  by (simp add: py_prefix_def py_slice_def)

section \<open>Facts about texts of whitespace\<close>

lemma space_not_word: "is_space c \<Longrightarrow> \<not> is_word c"
  by (auto simp: is_space_def is_word_def is_digit_def is_ascii_letter_def Let_def)

lemma space_lower: "is_space c \<Longrightarrow> lower_char c = c"
  by (auto simp: is_space_def lower_char_def Let_def)

lemma py_lower_spaces: "\<forall>c \<in> set s. is_space c \<Longrightarrow> py_lower s = s"
  by (induction s) (auto simp: py_lower_def space_lower)

text \<open>A pattern that cannot match where the scan takes it matches nowhere.\<close>

lemma rx_scan_no_match:
  assumes "\<And>p s. Q p \<Longrightarrow> \<forall>c \<in> set s. P c \<Longrightarrow> rx_match r p s = None"
    and "\<And>c. P c \<Longrightarrow> Q (Some c)"
    and "Q p" "\<forall>c \<in> set s. P c"
  shows "rx_scan r 0 p pos s = []"
  using assms(3,4)
proof (induction s arbitrary: p pos)
  case Nil
  then show ?case by simp
next
  case (Cons c cs)
  have "rx_match r p (c # cs) = None"
    using Cons.prems by (intro assms(1)) auto
  moreover have "rx_scan r 0 (Some c) (pos + 1) cs = []"
    using Cons.prems by (intro Cons.IH assms(2)) auto
  ultimately show ?case by simp
qed

lemma no_boundary:
  "no_word_before p \<Longrightarrow> \<forall>c \<in> set s. \<not> is_word c \<Longrightarrow> \<not> word_boundary p s"
  by (auto simp: no_word_before_def word_boundary_def split: option.splits list.splits)

lemma boundary_pattern_no_match:
  assumes "no_word_before p" "\<forall>c \<in> set s. \<not> is_word c"
  shows "rx_match (Seq WordB r) p s = None"
  using no_boundary [OF assms] by (simp add: rx_match_def)

lemma finditer_boundary_pattern:
  assumes "\<forall>c \<in> set s. is_space c"
  shows "finditer (Seq WordB r) s = []"
  unfolding finditer_def
proof (rule rx_scan_no_match [where Q = no_word_before and P = "\<lambda>c. \<not> is_word c"])
  show "rx_match (Seq WordB r) p s = None" if "no_word_before p" "\<forall>c \<in> set s. \<not> is_word c" for p s
    using that by (rule boundary_pattern_no_match)
  show "no_word_before (Some c)" if "\<not> is_word c" for c
    using that by (simp add: no_word_before_def)
  show "no_word_before None"
    by (simp add: no_word_before_def)
  show "\<forall>c \<in> set s. \<not> is_word c"
    using assms by (auto dest: space_not_word)
qed

lemma split_fields_chars:
  "f \<in> set (split_fields s pos ms) \<Longrightarrow> set f \<subseteq> set s"
proof (induction s pos ms rule: split_fields.induct)
  case (1 s pos)
  then show ?case by (auto dest: in_set_dropD)
next
  case (2 s pos st n g ms)
  then show ?case by (auto dest: in_set_dropD in_set_takeD)
qed

lemma re_split_chars: "f \<in> set (re_split r text) \<Longrightarrow> set f \<subseteq> set text"
  unfolding re_split_def by (rule split_fields_chars)

lemma split_sentences_spaces:
  assumes "\<forall>c \<in> set text. is_space c"
  shows "split_sentences text = []"
proof -
  have "py_strip f = []" if "f \<in> set (re_split rx_terminators text)" for f
    using re_split_chars [OF that] assms by (auto simp: strip_empty_iff)
  then show ?thesis
    by (simp add: split_sentences_def filter_empty_conv)
qed

lemma split_paragraphs_spaces:
  assumes "\<forall>c \<in> set text. is_space c"
  shows "split_paragraphs text = []"
proof -
  have "py_strip f = []" if "f \<in> set (re_split rx_blank_line text)" for f
    using re_split_chars [OF that] assms by (auto simp: strip_empty_iff)
  then show ?thesis
    by (simp add: split_paragraphs_def filter_empty_conv)
qed

lemma py_range_zero: "step \<noteq> 0 \<Longrightarrow> py_range 0 step = Inr []"
  by (simp add: py_range_def range_up_Nil)

lemma process_document_spaces:
  assumes "\<forall>c \<in> set text. is_space c"
    and "chunk_method c = ''words'' \<or> chunk_method c = ''sentences'' \<or> chunk_method c = ''paragraphs''"
    and "chunk_size c \<noteq> overlap c"
  shows "process_document c text = Inr []"
proof -
  have s: "py_split text = []" "split_sentences text = []" "split_paragraphs text = []"
    using assms(1) by (simp_all add: py_split_empty_iff split_sentences_spaces split_paragraphs_spaces)
  have r: "py_range 0 (chunk_size c - overlap c) = Inr []"
    using assms(3) by (intro py_range_zero) simp
  show ?thesis
    using assms(2)
    by (auto simp: process_document_def chunk_by_words_def chunk_by_sentences_def
        chunk_by_paragraphs_def s r)
qed

lemma keywords_spaces:
  assumes "\<forall>c \<in> set text. is_space c"
  shows "extract_statistical_keywords text min_freq max_keywords = []"
proof -
  have "finditer rx_alpha_word (py_lower text) = []"
    using assms by (simp add: rx_alpha_word_def seqs_def py_lower_spaces finditer_boundary_pattern)
  then have "filtered_words text = []"
    by (simp add: filtered_words_def re_findall_def)
  then show ?thesis
    by (simp add: extract_statistical_keywords_def Counter_def py_prefix_Nil)
qed

lemma patterns_boundary: "pattern \<in> set patterns \<Longrightarrow> \<exists>r. pattern = Seq WordB r"
  by (auto simp: patterns_def phrase_pattern_def seqs_def)

lemma phrases_spaces:
  assumes "\<forall>c \<in> set text. is_space c"
  shows "extract_key_phrases text max_phrases = []"
proof -
  have "pattern_phrases text pattern = []" if "pattern \<in> set patterns" for pattern
  proof -
    from patterns_boundary [OF that] obtain r where "pattern = Seq WordB r" by blast
    then have "finditer pattern text = []"
      using assms by (simp add: finditer_boundary_pattern)
    then show ?thesis
      by (simp add: pattern_phrases_def re_findall_def)
  qed
  then have c: "concat (map (pattern_phrases text) patterns) = []"
    by simp
  show ?thesis
    unfolding extract_key_phrases_def c by (simp add: py_prefix_Nil)
qed

lemma generate_summary_no_words:
  assumes "py_split text = []"
  shows "snd (generate_summary self text summary_type length_tier) = Inl ZeroDivisionError"
  using assms by (simp add: generate_summary_def Let_def split_def)

section \<open>Facts about the stable sorts and the frequency count\<close>

lemma insort_before:
  assumes "sorted_wrt (before key pos) ys" "\<forall>y \<in> set ys. pos x < pos y"
  shows "sorted_wrt (before key pos) (insort_key (\<lambda>x. - key x) x ys)"
  using assms
proof (induction ys)
  case Nil
  then show ?case by simp
next
  case (Cons y ys)
  show ?case
  proof (cases "key y \<le> key x")
    case True
    have "before key pos x z" if "z \<in> set (y # ys)" for z
    proof -
      have "key z \<le> key y"
        using that Cons.prems(1) by (auto simp: before_def)
      moreover have "pos x < pos z"
        using that Cons.prems(2) by auto
      ultimately show ?thesis
        using True by (auto simp: before_def)
    qed
    then show ?thesis
      using True Cons.prems(1) by simp
  next
    case False
    then have yx: "before key pos y x"
      by (simp add: before_def)
    have "sorted_wrt (before key pos) (insort_key (\<lambda>x. - key x) x ys)"
      using Cons by simp
    then show ?thesis
      using False yx Cons.prems(1) by (auto simp: set_insort_key)
  qed
qed

lemma stable_sort_descending:
  assumes "sorted_wrt (\<lambda>a b. pos a < pos b) xs"
  shows "sorted_wrt (before key pos) (sort_key (\<lambda>x. - key x) xs)"
  using assms
proof (induction xs)
  case Nil
  then show ?case by simp
next
  case (Cons x xs)
  then show ?case
    by (simp add: insort_before)
qed

lemma py_prefix_take: "py_prefix xs b = take (slice_bound (length xs) b) xs"
  by (simp add: py_prefix_def py_slice_def slice_bound_def)

lemma py_prefix_nonneg: "0 \<le> b \<Longrightarrow> py_prefix xs b = take (nat b) xs"
  by (simp add: py_prefix_take slice_bound_def min_def)

lemma strictly_ordered_inj:
  "sorted_wrt (\<lambda>a b. (pos a :: nat) < pos b) xs \<Longrightarrow> inj_on pos (set xs)"
proof (induction xs)
  case Nil
  then show ?case by simp
next
  case (Cons x xs)
  from Cons.prems have "\<forall>y \<in> set xs. pos x < pos y" by simp
  then have "pos x \<notin> pos ` set xs" by force
  with Cons show ?case by auto
qed

lemma encounter_less: "a \<in> set ws \<Longrightarrow> encounter ws a < length ws"
  by (induction ws) (auto simp: encounter_def)

lemma encounter_append_old: "a \<in> set pre \<Longrightarrow> encounter (pre @ ws) a = encounter pre a"
  by (simp add: encounter_def takeWhile_append1)

lemma encounter_append_new: "w \<notin> set pre \<Longrightarrow> encounter (pre @ w # ws) w = length pre"
proof -
  assume "w \<notin> set pre"
  then have "takeWhile (\<lambda>x. x \<noteq> w) (pre @ w # ws) = pre @ takeWhile (\<lambda>x. x \<noteq> w) (w # ws)"
    by (intro takeWhile_append2) auto
  then show ?thesis
    by (simp add: encounter_def)
qed

lemma counter_add_keys:
  "map fst (counter_add w acc) = (if w \<in> set (map fst acc) then map fst acc else map fst acc @ [w])"
  by (induction w acc rule: counter_add.induct) auto

lemma keys_in_order_step:
  assumes "keys_in_order pre acc"
  shows "keys_in_order (pre @ [w]) (counter_add w acc)"
proof (cases "w \<in> set pre")
  case True
  have "sorted_wrt (\<lambda>a b. encounter (pre @ [w]) a < encounter (pre @ [w]) b) (map fst acc)"
    using assms unfolding keys_in_order_def
    by (auto simp: encounter_append_old elim!: sorted_wrt_mono_rel [rotated])
  then show ?thesis
    using assms True by (auto simp: keys_in_order_def counter_add_keys)
next
  case False
  have old: "sorted_wrt (\<lambda>a b. encounter (pre @ [w]) a < encounter (pre @ [w]) b) (map fst acc)"
    using assms unfolding keys_in_order_def
    by (auto simp: encounter_append_old elim!: sorted_wrt_mono_rel [rotated])
  have "encounter (pre @ [w]) a < encounter (pre @ [w]) w" if "a \<in> set (map fst acc)" for a
  proof -
    from that assms have a: "a \<in> set pre" by (simp add: keys_in_order_def)
    then show ?thesis
      using False by (simp add: encounter_append_old encounter_append_new encounter_less)
  qed
  with old have "sorted_wrt (\<lambda>a b. encounter (pre @ [w]) a < encounter (pre @ [w]) b)
      (map fst acc @ [w])"
    by (simp add: sorted_wrt_append)
  then show ?thesis
    using assms False by (auto simp: keys_in_order_def counter_add_keys)
qed

lemma keys_in_order_loop:
  "keys_in_order pre acc \<Longrightarrow> keys_in_order (pre @ ws) (foldl (\<lambda>acc w. counter_add w acc) acc ws)"
proof (induction ws arbitrary: pre acc)
  case Nil
  then show ?case by simp
next
  case (Cons w ws)
  from keys_in_order_step [OF Cons.prems]
  have "keys_in_order ((pre @ [w]) @ ws) (foldl (\<lambda>acc w. counter_add w acc) (counter_add w acc) ws)"
    by (rule Cons.IH)
  then show ?case by simp
qed

lemma Counter_keys_in_order:
  "sorted_wrt (\<lambda>a b. encounter ws (fst a) < encounter ws (fst b)) (Counter ws)"
proof -
  have "keys_in_order [] []"
    by (simp add: keys_in_order_def)
  from keys_in_order_loop [OF this, of ws] show ?thesis
    by (simp add: keys_in_order_def Counter_def sorted_wrt_map)
qed

lemma kw_term_make_keyword: "kw_term (make_keyword item) = fst item"
  by (simp add: make_keyword_def Let_def)

lemma keywords_in_order:
  "sorted_wrt (\<lambda>a b. encounter ws (kw_term a) < encounter ws (kw_term b))
     (map make_keyword (filter P (Counter ws)))"
  using sorted_wrt_filter [OF Counter_keys_in_order, where P = P and ws1 = ws]
  by (simp add: sorted_wrt_map kw_term_make_keyword)

lemma sorted_keywords_before:
  "sorted_wrt (before score (\<lambda>k. encounter (filtered_words text) (kw_term k)))
     (extract_statistical_keywords text min_freq max_keywords)"
proof -
  let ?ws = "filtered_words text"
  let ?kws = "map make_keyword (filter (\<lambda>(word, freq). min_freq \<le> freq) (Counter ?ws))"
  have "sorted_wrt (before score (\<lambda>k. encounter ?ws (kw_term k))) (sort_key (\<lambda>x. - score x) ?kws)"
    by (intro stable_sort_descending keywords_in_order)
  then show ?thesis
    by (simp add: extract_statistical_keywords_def Let_def py_prefix_take sorted_wrt_take)
qed

lemma distinct_map_sorted_wrt:
  "sorted_wrt (\<lambda>a b. f a \<noteq> f b) xs \<Longrightarrow> distinct (map f xs)"
  by (induction xs) auto

lemma sentence_scores_positions: "map (\<lambda>x. snd (snd x)) (sentence_scores ss) = [0..<length ss]"
proof -
  have "map (\<lambda>x. snd (snd x)) (sentence_scores ss) = map fst (enumerate 0 ss)"
    by (simp add: sentence_scores_def split_def comp_def)
  then show ?thesis by simp
qed

lemma sentence_scores_in_order:
  "sorted_wrt (\<lambda>a b. snd (snd a) < snd (snd b)) (sentence_scores ss)"
proof -
  have "sorted_wrt (<) (map (\<lambda>x. snd (snd x)) (sentence_scores ss))"
    by (simp add: sentence_scores_positions)
  then show ?thesis
    by (simp add: sorted_wrt_map)
qed

lemma sentence_scores_member:
  assumes "x \<in> set (sentence_scores ss)"
  shows "snd (snd x) < length ss \<and> fst x = ss ! snd (snd x) \<and> fst (snd x) = sentence_score (fst x)"
  using assms by (auto simp: sentence_scores_def in_set_enumerate_eq)

lemma sentence_scores_nth:
  "j < length ss \<Longrightarrow> (ss ! j, sentence_score (ss ! j), j) \<in> set (sentence_scores ss)"
  by (force simp: sentence_scores_def in_set_enumerate_eq)

text \<open>The two halves of a stably sorted list: each element of the first stands before
  each element of the second.\<close>

lemma take_before_drop:
  assumes "sorted_wrt R xs" "a \<in> set (take k xs)" "b \<in> set (drop k xs)"
  shows "R a b"
proof -
  from assms(1) have "sorted_wrt R (take k xs @ drop k xs)" by simp
  with assms(2,3) show ?thesis
    unfolding sorted_wrt_append by blast
qed

lemma selected_sentences_eq:
  assumes "0 \<le> n"
  shows "selected_sentences ss n =
     sort_key (\<lambda>x. snd (snd x)) (take (nat n) (sort_key (\<lambda>x. - fst (snd x)) (sentence_scores ss)))"
  using assms by (simp add: selected_sentences_def Let_def py_prefix_nonneg)

lemma selected_sentences_properties:
  assumes "0 \<le> n" "n < int (length ss)"
  shows "length (selected_sentences ss n) = nat n"
    and "set (selected_sentences ss n) \<subseteq> set (sentence_scores ss)"
    and "\<And>a b. a \<in> set (selected_sentences ss n) \<Longrightarrow> b \<in> set (sentence_scores ss) \<Longrightarrow>
           b \<notin> set (selected_sentences ss n) \<Longrightarrow>
           before (\<lambda>x. fst (snd x)) (\<lambda>x. snd (snd x)) a b"
    and "sorted_wrt (\<lambda>a b. snd (snd a) < snd (snd b)) (selected_sentences ss n)"
proof -
  let ?all = "sentence_scores ss"
  let ?L = "sort_key (\<lambda>x. - fst (snd x)) ?all"
  let ?sel = "selected_sentences ss n"
  have e: "?sel = sort_key (\<lambda>x. snd (snd x)) (take (nat n) ?L)"
    using assms(1) by (rule selected_sentences_eq)
  have len: "length ?all = length ss"
    by (simp add: sentence_scores_def)
  show "length ?sel = nat n"
    using assms by (simp add: e len)
  have s: "set ?sel = set (take (nat n) ?L)"
    by (simp add: e)
  show sub: "set ?sel \<subseteq> set ?all"
    unfolding s using set_take_subset [of "nat n" ?L] by simp
  have L: "sorted_wrt (before (\<lambda>x. fst (snd x)) (\<lambda>x. snd (snd x))) ?L"
    by (intro stable_sort_descending sentence_scores_in_order)
  show "before (\<lambda>x. fst (snd x)) (\<lambda>x. snd (snd x)) a b"
    if "a \<in> set ?sel" "b \<in> set ?all" "b \<notin> set ?sel" for a b
  proof -
    have "set ?all = set (take (nat n) ?L) \<union> set (drop (nat n) ?L)"
      using set_append [of "take (nat n) ?L" "drop (nat n) ?L"] by simp
    with that(2,3) have "b \<in> set (drop (nat n) ?L)"
      by (simp add: s)
    from that(1) have "a \<in> set (take (nat n) ?L)"
      by (simp add: s)
    with L show ?thesis
      using \<open>b \<in> set (drop (nat n) ?L)\<close> by (rule take_before_drop)
  qed
  have d: "distinct (map (\<lambda>x. snd (snd x)) ?all)"
    by (simp add: sentence_scores_positions)
  then have "distinct ?all"
    by (simp add: distinct_map)
  then have dsel: "distinct ?sel"
    by (simp add: e)
  have "inj_on (\<lambda>x. snd (snd x)) (set ?all)"
    using d by (simp add: distinct_map)
  then have "inj_on (\<lambda>x. snd (snd x)) (set ?sel)"
    using sub by (rule inj_on_subset)
  with dsel have "distinct (map (\<lambda>x. snd (snd x)) ?sel)"
    by (simp add: distinct_map)
  moreover have "sorted (map (\<lambda>x. snd (snd x)) ?sel)"
    unfolding e by (rule sorted_sort_key)
  ultimately have "sorted_wrt (<) (map (\<lambda>x. snd (snd x)) ?sel)"
    by (simp add: strict_sorted_iff)
  then show "sorted_wrt (\<lambda>a b. snd (snd a) < snd (snd b)) ?sel"
    by (simp add: sorted_wrt_map)
qed

section \<open>Segmentation: the claims\<close>

text \<open>
  Claim C2, as the specification has it: a text with fewer units than \<open>chunk_size\<close>, cut
  with \<open>0 \<le> overlap < chunk_size\<close>, yields exactly one chunk with all the units. The loop
  does not do that. Two words with \<open>chunk_size = 3\<close> and \<open>overlap = 2\<close> advance by one
  unit and give two chunks, the second a repetition of the tail of the first; and a
  text with no unit at all gives no chunk.
\<close>

theorem single_chunk_counterexample:
  "units ''words'' ''a b'' = [''a'', ''b'']
   \<and> process_document \<lparr>chunk_size = 3, overlap = 2, chunk_method = ''words''\<rparr> ''a b'' =
       Inr [\<lparr>chunk_id = 1, content = ''a b'', word_count = 2, sentence_count = 1,
               paragraph_count = None, start_index = 0, end_index = 2\<rparr>,
            \<lparr>chunk_id = 2, content = ''b'', word_count = 1, sentence_count = 1,
               paragraph_count = None, start_index = 1, end_index = 2\<rparr>]
   \<and> units ''words'' [] = []
   \<and> process_document \<lparr>chunk_size = 3, overlap = 2, chunk_method = ''words''\<rparr> [] = Inr []"
  by code_simp

text \<open>
  Claim C2, amended: for each of the three methods, when the text has at least one unit
  and fewer than \<open>chunk_size\<close>, and \<open>0 \<le> overlap < chunk_size\<close>, segmentation succeeds
  and its first chunk has the id 1, covers the units from 0 to their number, and its
  content is all the units joined; it is the only chunk when the number of units is at
  most \<open>chunk_size - overlap\<close>.
\<close>

theorem first_chunk_holds_all_units:
  assumes m: "chunk_method c = ''words'' \<or> chunk_method c = ''sentences'' \<or> chunk_method c = ''paragraphs''"
    and ov: "0 \<le> overlap c" "overlap c < chunk_size c"
    and n: "0 < length (units (chunk_method c) text)"
           "int (length (units (chunk_method c) text)) < chunk_size c"
  shows "\<exists>ch rest. process_document c text = Inr (ch # rest)
           \<and> chunk_id ch = 1 \<and> start_index ch = 0
           \<and> end_index ch = length (units (chunk_method c) text)
           \<and> content ch = py_strip (joined_units (chunk_method c) (units (chunk_method c) text))
           \<and> (int (length (units (chunk_method c) text)) \<le> chunk_size c - overlap c \<longrightarrow> rest = [])"
proof -
  consider (w) "chunk_method c = ''words''" | (s) "chunk_method c = ''sentences''"
    | (p) "chunk_method c = ''paragraphs''"
    using m by blast
  then show ?thesis
  proof cases
    case w
    with n have "py_split text \<noteq> []" "int (length (py_split text)) \<le> chunk_size c"
      by (auto simp: units_def)
    from chunk_by_words_first [OF ov(2) this] show ?thesis
      using w by (simp add: process_document_def units_def joined_units_def)
  next
    case s
    with n have "split_sentences text \<noteq> []" "int (length (split_sentences text)) \<le> chunk_size c"
      by (auto simp: units_def)
    from chunk_by_sentences_first [OF ov(2) this] show ?thesis
      using s by (simp add: process_document_def units_def joined_units_def)
  next
    case p
    with n have "split_paragraphs text \<noteq> []" "int (length (split_paragraphs text)) \<le> chunk_size c"
      by (auto simp: units_def)
    from chunk_by_paragraphs_first [OF ov(2) this] show ?thesis
      using p by (simp add: process_document_def units_def joined_units_def)
  qed
qed

text \<open>
  The amended claim C2 at two sentences, \<open>chunk_size = 3\<close> and \<open>overlap = 1\<close>: two units,
  fewer than 3 and at most \<open>3 - 1\<close>, and one chunk with both.
\<close>

theorem first_chunk_holds_all_units_witness:
  "units ''sentences'' ''Pay the rent. Keep the peace!'' = [''Pay the rent'', ''Keep the peace'']
   \<and> process_document \<lparr>chunk_size = 3, overlap = 1, chunk_method = ''sentences''\<rparr>
         ''Pay the rent. Keep the peace!'' =
       Inr [\<lparr>chunk_id = 1, content = ''Pay the rent. Keep the peace.'', word_count = 6,
               sentence_count = 2, paragraph_count = None, start_index = 0, end_index = 2\<rparr>]"
proof -
  let ?c = "\<lparr>chunk_size = 3, overlap = 1, chunk_method = ''sentences''\<rparr>"
  let ?t = "''Pay the rent. Keep the peace!''"
  have u: "units ''sentences'' ?t = [''Pay the rent'', ''Keep the peace'']"
    by code_simp
  have v: "process_document ?c ?t =
       Inr [\<lparr>chunk_id = 1, content = ''Pay the rent. Keep the peace.'', word_count = 6,
               sentence_count = 2, paragraph_count = None, start_index = 0, end_index = 2\<rparr>]"
    by code_simp
  have "\<exists>ch rest. process_document ?c ?t = Inr (ch # rest)
           \<and> chunk_id ch = 1 \<and> start_index ch = 0
           \<and> end_index ch = length (units (chunk_method ?c) ?t)
           \<and> content ch = py_strip (joined_units (chunk_method ?c) (units (chunk_method ?c) ?t))
           \<and> (int (length (units (chunk_method ?c) ?t)) \<le> chunk_size ?c - overlap ?c \<longrightarrow> rest = [])"
    by (rule first_chunk_holds_all_units) (simp_all add: u)
  then show ?thesis
    using u v by simp
qed

text \<open>
  Claim C3, as the specification has it: every invalid configuration (\<open>overlap \<ge>
  chunk_size\<close>, a non-positive \<open>chunk_size\<close>, an unknown method) makes segmentation
  fail with an error and never return a chunk list. The module checks none of the two
  numbers: an overlap above the chunk size gives a negative step, an empty range and the
  empty list; a negative chunk size with a smaller overlap gives a positive step and
  chunks cut by a negative slice bound.
\<close>

theorem invalid_configuration_counterexample:
  "process_document \<lparr>chunk_size = 2, overlap = 3, chunk_method = ''words''\<rparr> ''a b'' = Inr []
   \<and> process_document \<lparr>chunk_size = - 1, overlap = - 2, chunk_method = ''words''\<rparr> ''a b'' =
       Inr [\<lparr>chunk_id = 1, content = ''a'', word_count = 1, sentence_count = 1,
               paragraph_count = None, start_index = 0, end_index = 1\<rparr>]"
  by code_simp

text \<open>
  Claim C3, amended: for every text, an unknown method raises \<^verbatim>\<open>ValueError\<close> whatever the
  numbers are; with a known method, \<open>overlap = chunk_size\<close> raises \<^verbatim>\<open>ValueError\<close> (the zero
  step of \<^verbatim>\<open>range\<close>), and \<open>overlap > chunk_size\<close> returns the empty chunk list without an
  error.
\<close>

theorem invalid_configuration:
  "(chunk_method c \<noteq> ''words'' \<and> chunk_method c \<noteq> ''sentences'' \<and> chunk_method c \<noteq> ''paragraphs''
      \<longrightarrow> process_document c text = Inl ValueError)
   \<and> ((chunk_method c = ''words'' \<or> chunk_method c = ''sentences'' \<or> chunk_method c = ''paragraphs'')
        \<and> overlap c = chunk_size c
      \<longrightarrow> process_document c text = Inl ValueError)
   \<and> ((chunk_method c = ''words'' \<or> chunk_method c = ''sentences'' \<or> chunk_method c = ''paragraphs'')
        \<and> chunk_size c < overlap c
      \<longrightarrow> process_document c text = Inr [])"
proof (intro conjI impI)
  assume "chunk_method c \<noteq> ''words'' \<and> chunk_method c \<noteq> ''sentences'' \<and> chunk_method c \<noteq> ''paragraphs''"
  then show "process_document c text = Inl ValueError"
    by (simp add: process_document_def)
next
  assume "(chunk_method c = ''words'' \<or> chunk_method c = ''sentences'' \<or> chunk_method c = ''paragraphs'')
        \<and> overlap c = chunk_size c"
  then show "process_document c text = Inl ValueError"
    by (intro known_method_zero_step) auto
next
  assume "(chunk_method c = ''words'' \<or> chunk_method c = ''sentences'' \<or> chunk_method c = ''paragraphs'')
        \<and> chunk_size c < overlap c"
  then show "process_document c text = Inr []"
    by (intro known_method_negative_step) auto
qed

text \<open>The amended claim C3 at one configuration of each kind.\<close>

theorem invalid_configuration_witness:
  "process_document \<lparr>chunk_size = 4, overlap = 1, chunk_method = ''lines''\<rparr> ''a b'' = Inl ValueError
   \<and> process_document \<lparr>chunk_size = 4, overlap = 4, chunk_method = ''sentences''\<rparr> ''a b'' = Inl ValueError
   \<and> process_document \<lparr>chunk_size = 4, overlap = 5, chunk_method = ''paragraphs''\<rparr> ''a b'' = Inr []"
  using invalid_configuration [of "\<lparr>chunk_size = 4, overlap = 1, chunk_method = ''lines''\<rparr>" "''a b''"]
    invalid_configuration [of "\<lparr>chunk_size = 4, overlap = 4, chunk_method = ''sentences''\<rparr>" "''a b''"]
    invalid_configuration [of "\<lparr>chunk_size = 4, overlap = 5, chunk_method = ''paragraphs''\<rparr>" "''a b''"]
  by simp

text \<open>
  Claim C8: for every text and every \<open>chunk_size > 0\<close>, the word method with an overlap
  \<open>o1\<close> gives at most as many chunks as with a larger overlap \<open>o2 < chunk_size\<close>; and with
  one overlap below \<open>chunk_size\<close>, a larger chunk size gives at most as many chunks. In
  each case segmentation succeeds.
\<close>

theorem chunk_count_monotone:
  assumes "0 < cs" "o1 < o2" "o2 < cs" "ov < cs" "cs \<le> cs'"
  shows "\<exists>xs ys us vs.
           process_document \<lparr>chunk_size = cs, overlap = o1, chunk_method = ''words''\<rparr> text = Inr xs
         \<and> process_document \<lparr>chunk_size = cs, overlap = o2, chunk_method = ''words''\<rparr> text = Inr ys
         \<and> length xs \<le> length ys
         \<and> process_document \<lparr>chunk_size = cs, overlap = ov, chunk_method = ''words''\<rparr> text = Inr us
         \<and> process_document \<lparr>chunk_size = cs', overlap = ov, chunk_method = ''words''\<rparr> text = Inr vs
         \<and> length vs \<le> length us"
proof -
  let ?n = "length (py_split text)"
  let ?c1 = "\<lparr>chunk_size = cs, overlap = o1, chunk_method = ''words''\<rparr>"
  let ?c2 = "\<lparr>chunk_size = cs, overlap = o2, chunk_method = ''words''\<rparr>"
  let ?c3 = "\<lparr>chunk_size = cs, overlap = ov, chunk_method = ''words''\<rparr>"
  let ?c4 = "\<lparr>chunk_size = cs', overlap = ov, chunk_method = ''words''\<rparr>"
  obtain xs where xs: "chunk_by_words ?c1 text = Inr xs"
      "length xs = length (range_up 0 ?n (nat (cs - o1)))"
    using chunk_by_words_count [of ?c1 "text"] assms by auto
  obtain ys where ys: "chunk_by_words ?c2 text = Inr ys"
      "length ys = length (range_up 0 ?n (nat (cs - o2)))"
    using chunk_by_words_count [of ?c2 "text"] assms by auto
  obtain us where us: "chunk_by_words ?c3 text = Inr us"
      "length us = length (range_up 0 ?n (nat (cs - ov)))"
    using chunk_by_words_count [of ?c3 "text"] assms by auto
  obtain vs where vs: "chunk_by_words ?c4 text = Inr vs"
      "length vs = length (range_up 0 ?n (nat (cs' - ov)))"
    using chunk_by_words_count [of ?c4 "text"] assms by auto
  have "length (range_up 0 ?n (nat (cs - o1))) \<le> length (range_up 0 ?n (nat (cs - o2)))"
    using assms by (intro range_up_mono) auto
  moreover have "length (range_up 0 ?n (nat (cs' - ov))) \<le> length (range_up 0 ?n (nat (cs - ov)))"
    using assms by (intro range_up_mono) auto
  ultimately show ?thesis
    using xs ys us vs by (simp add: process_document_def)
qed

text \<open>
  Claim C8 at five words: \<open>chunk_size = 3\<close> with the overlaps 0 and 2 gives 2 and 5
  chunks; the overlap 2 with the chunk sizes 3 and 4 gives 5 and 3 chunks.
\<close>

theorem chunk_count_monotone_witness:
  "map start_index (projr (process_document \<lparr>chunk_size = 3, overlap = 0, chunk_method = ''words''\<rparr>
      ''a b c d e'')) = [0, 3]
   \<and> map start_index (projr (process_document \<lparr>chunk_size = 3, overlap = 2, chunk_method = ''words''\<rparr>
      ''a b c d e'')) = [0, 1, 2, 3, 4]
   \<and> map start_index (projr (process_document \<lparr>chunk_size = 4, overlap = 2, chunk_method = ''words''\<rparr>
      ''a b c d e'')) = [0, 2, 4]"
proof -
  have a: "map start_index (projr (process_document
      \<lparr>chunk_size = 3, overlap = 0, chunk_method = ''words''\<rparr> ''a b c d e'')) = [0, 3]"
    by code_simp
  have b: "map start_index (projr (process_document
      \<lparr>chunk_size = 3, overlap = 2, chunk_method = ''words''\<rparr> ''a b c d e'')) = [0, 1, 2, 3, 4]"
    by code_simp
  have c: "map start_index (projr (process_document
      \<lparr>chunk_size = 4, overlap = 2, chunk_method = ''words''\<rparr> ''a b c d e'')) = [0, 2, 4]"
    by code_simp
  show ?thesis
    using chunk_count_monotone [of 3 0 2 2 4 "''a b c d e''"] a b c by simp
qed

section \<open>Keyword and phrase extraction: the claims\<close>

text \<open>
  Claim C1 says that each phrase runs from the trigger through the next sentence
  terminator, and that \<^verbatim>\<open>Subject to the terms herein, the tenant shall pay rent.\<close> gives
  exactly one phrase, which begins with the trigger and the words after it. Each
  pattern has a capturing group around the trigger, so \<^verbatim>\<open>re.findall\<close> returns the
  trigger alone: here \<^verbatim>\<open>Subject to\<close>, \<^verbatim>\<open>the tenant shall\<close> and \<^verbatim>\<open>shall pay\<close> for the first
  three patterns. All three are shorter than 20 characters, the length filter drops
  them, and the function returns no phrase, whatever \<open>max_phrases\<close> is.
\<close>

theorem phrase_scenario_returns_nothing:
  "map (\<lambda>pattern. re_findall pattern ''Subject to the terms herein, the tenant shall pay rent.'')
       patterns
     = [[''Subject to''], [''the tenant shall''], [''shall pay''], [], [], []]
   \<and> extract_key_phrases ''Subject to the terms herein, the tenant shall pay rent.'' max_phrases = []"
proof -
  let ?t = "''Subject to the terms herein, the tenant shall pay rent.''"
  have a: "map (\<lambda>pattern. re_findall pattern ?t) patterns
     = [[''Subject to''], [''the tenant shall''], [''shall pay''], [], [], []]"
    by code_simp
  have b: "concat (map (pattern_phrases ?t) patterns) = []"
    by code_simp
  show ?thesis
    using a by (simp add: extract_key_phrases_def b py_prefix_Nil)
qed

text \<open>
  The value of the keyword scorer on the text of claim C5, with \<open>min_freq = 2\<close> and the
  default \<open>max_keywords = 50\<close>.
\<close>

lemma scenario_keywords_value:
  "extract_statistical_keywords ''The party shall pay the party shall pay rent.'' 2 50 =
     [\<lparr>kw_term = ''party'', frequency = 2, category = ''parties'', score = 4\<rparr>,
      \<lparr>kw_term = ''shall'', frequency = 2, category = ''legal_actions'', score = 4\<rparr>,
      \<lparr>kw_term = ''pay'', frequency = 2, category = ''general'', score = 2\<rparr>]"
  by code_simp

text \<open>
  Claim C5: on \<^verbatim>\<open>The party shall pay the party shall pay rent.\<close> with \<open>min_freq = 2\<close>, the
  result has the keyword \<^verbatim>\<open>shall\<close> with frequency 2, category \<^verbatim>\<open>legal_actions\<close> and score 4,
  and the keyword \<^verbatim>\<open>party\<close> with frequency 2, category \<^verbatim>\<open>parties\<close> and score 4, and no
  keyword \<^verbatim>\<open>rent\<close>.
\<close>

theorem scenario_keywords:
  "\<lparr>kw_term = ''shall'', frequency = 2, category = ''legal_actions'', score = 4\<rparr>
     \<in> set (extract_statistical_keywords ''The party shall pay the party shall pay rent.'' 2 50)
   \<and> \<lparr>kw_term = ''party'', frequency = 2, category = ''parties'', score = 4\<rparr>
     \<in> set (extract_statistical_keywords ''The party shall pay the party shall pay rent.'' 2 50)
   \<and> ''rent'' \<notin> kw_term `
        set (extract_statistical_keywords ''The party shall pay the party shall pay rent.'' 2 50)"
  by (simp add: scenario_keywords_value)

text \<open>
  Claim C6: for every text, every \<open>min_freq\<close> and every \<open>max_keywords > 0\<close>, the keywords
  returned are in non-increasing order of score; of two keywords of equal score, the one
  whose word was met first in the sequence that was counted stands first; there are at
  most \<open>max_keywords\<close> of them; and no two have the same term.
\<close>

theorem keywords_ordered:
  assumes "0 < max_keywords"
  shows "sorted_wrt (\<lambda>a b. score b \<le> score a) (extract_statistical_keywords text min_freq max_keywords)
    \<and> (\<forall>i j. i < j \<and> j < length (extract_statistical_keywords text min_freq max_keywords)
          \<and> score (extract_statistical_keywords text min_freq max_keywords ! i)
            = score (extract_statistical_keywords text min_freq max_keywords ! j)
        \<longrightarrow> encounter (filtered_words text)
              (kw_term (extract_statistical_keywords text min_freq max_keywords ! i))
            < encounter (filtered_words text)
              (kw_term (extract_statistical_keywords text min_freq max_keywords ! j)))
    \<and> length (extract_statistical_keywords text min_freq max_keywords) \<le> nat max_keywords
    \<and> distinct (map kw_term (extract_statistical_keywords text min_freq max_keywords))"
proof -
  let ?ks = "extract_statistical_keywords text min_freq max_keywords"
  let ?pos = "\<lambda>k. encounter (filtered_words text) (kw_term k)"
  have b: "sorted_wrt (before score ?pos) ?ks"
    by (rule sorted_keywords_before)
  have 1: "sorted_wrt (\<lambda>a b. score b \<le> score a) ?ks"
    using b by (rule sorted_wrt_mono_rel [rotated]) (auto simp: before_def)
  have 2: "?pos (?ks ! i) < ?pos (?ks ! j)"
    if "i < j" "j < length ?ks" "score (?ks ! i) = score (?ks ! j)" for i j
    using sorted_wrt_nth_less [OF b that(1,2)] that(3) by (simp add: before_def)
  have 3: "length ?ks \<le> nat max_keywords"
    using assms by (simp add: extract_statistical_keywords_def Let_def py_prefix_nonneg)
  let ?kws = "map make_keyword
      (filter (\<lambda>(word, freq). min_freq \<le> freq) (Counter (filtered_words text)))"
  have inj: "inj_on ?pos (set ?kws)"
    by (intro strictly_ordered_inj keywords_in_order)
  have sub: "set ?ks \<subseteq> set ?kws"
    using set_take_subset [of _ "sort_key (\<lambda>x. - score x) ?kws"]
    by (simp add: extract_statistical_keywords_def Let_def py_prefix_take)
  have "kw_term a \<noteq> kw_term a'"
    if "a \<in> set ?ks" "a' \<in> set ?ks" "before score ?pos a a'" for a a'
  proof
    assume "kw_term a = kw_term a'"
    then have "?pos a = ?pos a'" by simp
    with inj sub that(1,2) have "a = a'" by (auto dest: inj_onD)
    with that(3) show False by (simp add: before_def)
  qed
  then have "sorted_wrt (\<lambda>a b. kw_term a \<noteq> kw_term b) ?ks"
    using b by (rule sorted_wrt_mono_rel)
  then have 4: "distinct (map kw_term ?ks)"
    by (rule distinct_map_sorted_wrt)
  from 1 2 3 4 show ?thesis by blast
qed

text \<open>
  Claim C6 at the text of claim C5 with at most two keywords: \<^verbatim>\<open>party\<close> and \<^verbatim>\<open>shall\<close> tie at
  the score 4 and \<^verbatim>\<open>party\<close>, met first, stands first; \<^verbatim>\<open>pay\<close> is cut off.
\<close>

theorem keywords_ordered_witness:
  "filtered_words ''The party shall pay the party shall pay rent.'' =
     [''party'', ''shall'', ''pay'', ''party'', ''shall'', ''pay'', ''rent'']
   \<and> extract_statistical_keywords ''The party shall pay the party shall pay rent.'' 2 2 =
     [\<lparr>kw_term = ''party'', frequency = 2, category = ''parties'', score = 4\<rparr>,
      \<lparr>kw_term = ''shall'', frequency = 2, category = ''legal_actions'', score = 4\<rparr>]"
proof -
  have a: "filtered_words ''The party shall pay the party shall pay rent.'' =
     [''party'', ''shall'', ''pay'', ''party'', ''shall'', ''pay'', ''rent'']"
    by code_simp
  have b: "extract_statistical_keywords ''The party shall pay the party shall pay rent.'' 2 2 =
     [\<lparr>kw_term = ''party'', frequency = 2, category = ''parties'', score = 4\<rparr>,
      \<lparr>kw_term = ''shall'', frequency = 2, category = ''legal_actions'', score = 4\<rparr>]"
    by code_simp
  show ?thesis
    using keywords_ordered [of 2 "''The party shall pay the party shall pay rent.''" 2] a b
    by simp
qed

section \<open>Summarization: the claims\<close>

text \<open>
  Claim C9: \<^verbatim>\<open>generate_summary\<close> leaves the summarizer as it found it, for every text,
  summary type and length: the object returned is the object given, so \<open>max_length\<close> has
  its value from before the call; and the result does not depend on the value
  \<open>max_length\<close> had before the call.
\<close>

theorem generate_summary_restores_max_length:
  "fst (generate_summary self text summary_type length_tier) = self
   \<and> max_length (fst (generate_summary self text summary_type length_tier)) = max_length self
   \<and> snd (generate_summary (self\<lparr>max_length := m\<rparr>) text summary_type length_tier)
       = snd (generate_summary self text summary_type length_tier)"
  by (simp add: generate_summary_def Let_def split_def abstractive_summarization_def)

text \<open>
  Claim C10: when no piece of the text between sentence terminators is longer than 20
  characters after stripping, the extractive summarizer returns the one-character
  string \<^verbatim>\<open>.\<close>, for every \<open>num_sentences\<close> and so for every positive one.
\<close>

theorem extractive_short_fragments:
  assumes "\<forall>s \<in> set (re_split rx_terminators text). length (py_strip s) \<le> 20"
  shows "extractive_summarization text num_sentences = ''.''"
proof -
  have "filter (\<lambda>s. py_strip s \<noteq> [] \<and> 20 < length (py_strip s)) (re_split rx_terminators text) = []"
    using assms by (auto simp: filter_empty_conv)
  then have e: "summary_sentences text = []"
    by (simp add: summary_sentences_def)
  show ?thesis
    by (simp add: extractive_summarization_def e selected_sentences_def sentence_scores_def
        enumerate_eq_zip py_prefix_Nil)
qed

text \<open>Claim C10 at a text of two short sentences, and at the empty text.\<close>

theorem extractive_short_fragments_witness:
  "re_split rx_terminators '' Hi. Ok then!  '' = ['' Hi'', '' Ok then'', ''  '']
   \<and> extractive_summarization '' Hi. Ok then!  '' 3 = ''.''
   \<and> extractive_summarization [] 5 = ''.''"
proof -
  have r: "re_split rx_terminators '' Hi. Ok then!  '' = ['' Hi'', '' Ok then'', ''  '']"
    by code_simp
  have h: "\<forall>s \<in> set (re_split rx_terminators '' Hi. Ok then!  ''). length (py_strip s) \<le> 20"
    unfolding r by code_simp
  have r0: "re_split rx_terminators [] = [[]]"
    by code_simp
  have h0: "\<forall>s \<in> set (re_split rx_terminators []). length (py_strip s) \<le> 20"
    unfolding r0 by code_simp
  show ?thesis
    using extractive_short_fragments [OF h, of 3] extractive_short_fragments [OF h0, of 5] r
    by simp
qed

text \<open>
  Claim C7: when more sentences survive than \<open>num_sentences > 0\<close>, the summarizer selects
  exactly \<open>num_sentences\<close> of the scored sentences; each selected sentence has a higher
  score than each sentence left out, or the same score and an earlier position; the
  selected sentences stand in increasing order of their original position; and the
  summary is these sentences joined with \<^verbatim>\<open>. \<close> and a final period.
\<close>

theorem extractive_selection:
  assumes "0 < n" "n < int (length (summary_sentences text))"
  shows "length (selected_sentences (summary_sentences text) n) = nat n
    \<and> (\<forall>x \<in> set (selected_sentences (summary_sentences text) n).
          snd (snd x) < length (summary_sentences text)
          \<and> fst x = summary_sentences text ! snd (snd x)
          \<and> fst (snd x) = sentence_score (fst x))
    \<and> (\<forall>x \<in> set (selected_sentences (summary_sentences text) n).
        \<forall>j < length (summary_sentences text).
          j \<notin> (\<lambda>y. snd (snd y)) ` set (selected_sentences (summary_sentences text) n) \<longrightarrow>
            sentence_score (summary_sentences text ! j) < fst (snd x)
            \<or> (sentence_score (summary_sentences text ! j) = fst (snd x) \<and> snd (snd x) < j))
    \<and> sorted_wrt (\<lambda>a b. snd (snd a) < snd (snd b)) (selected_sentences (summary_sentences text) n)
    \<and> extractive_summarization text n =
        py_join ''. '' (map fst (selected_sentences (summary_sentences text) n)) @ ''.''"
proof -
  let ?ss = "summary_sentences text"
  let ?sel = "selected_sentences ?ss n"
  from assms have n: "0 \<le> n" "n < int (length ?ss)" by simp_all
  note p = selected_sentences_properties [OF n]
  have 1: "length ?sel = nat n"
    by (rule p(1))
  have 2: "snd (snd x) < length ?ss \<and> fst x = ?ss ! snd (snd x) \<and> fst (snd x) = sentence_score (fst x)"
    if "x \<in> set ?sel" for x
    using that p(2) by (intro sentence_scores_member) blast
  have 3: "sentence_score (?ss ! j) < fst (snd x)
           \<or> (sentence_score (?ss ! j) = fst (snd x) \<and> snd (snd x) < j)"
    if "x \<in> set ?sel" "j < length ?ss" "j \<notin> (\<lambda>y. snd (snd y)) ` set ?sel" for x j
  proof -
    let ?b = "(?ss ! j, sentence_score (?ss ! j), j)"
    have "?b \<in> set (sentence_scores ?ss)"
      using that(2) by (rule sentence_scores_nth)
    moreover have "?b \<notin> set ?sel"
      using that(3) by force
    ultimately have "before (\<lambda>x. fst (snd x)) (\<lambda>x. snd (snd x)) x ?b"
      using that(1) by (intro p(3))
    then show ?thesis
      by (auto simp: before_def)
  qed
  have 4: "sorted_wrt (\<lambda>a b. snd (snd a) < snd (snd b)) ?sel"
    by (rule p(4))
  have 5: "extractive_summarization text n = py_join ''. '' (map fst ?sel) @ ''.''"
    using assms(2) by (simp add: extractive_summarization_def Let_def)
  from 1 2 3 4 5 show ?thesis by blast
qed

text \<open>
  Claim C7 at four sentences with the scores 0, 2, 3, 2 and \<open>num_sentences = 2\<close>: the
  third and the second sentence are selected, the second before the fourth by its
  position, and the summary has them in the order of the text.
\<close>

theorem extractive_selection_witness:
  "sentence_scores (summary_sentences
      ''The weather was nice on that day. The landlord shall keep the house clean. The tenant shall pay 500 dollars monthly. The tenant shall keep the garden tidy.'') =
     [(''The weather was nice on that day'', 0, 0),
      (''The landlord shall keep the house clean'', 2, 1),
      (''The tenant shall pay 500 dollars monthly'', 3, 2),
      (''The tenant shall keep the garden tidy'', 2, 3)]
   \<and> selected_sentences (summary_sentences
      ''The weather was nice on that day. The landlord shall keep the house clean. The tenant shall pay 500 dollars monthly. The tenant shall keep the garden tidy.'') 2 =
     [(''The landlord shall keep the house clean'', 2, 1),
      (''The tenant shall pay 500 dollars monthly'', 3, 2)]
   \<and> extractive_summarization
      ''The weather was nice on that day. The landlord shall keep the house clean. The tenant shall pay 500 dollars monthly. The tenant shall keep the garden tidy.'' 2 =
     ''The landlord shall keep the house clean. The tenant shall pay 500 dollars monthly.''"
proof -
  let ?t = "''The weather was nice on that day. The landlord shall keep the house clean. The tenant shall pay 500 dollars monthly. The tenant shall keep the garden tidy.''"
  have u: "summary_sentences ?t =
     [''The weather was nice on that day'', ''The landlord shall keep the house clean'',
      ''The tenant shall pay 500 dollars monthly'', ''The tenant shall keep the garden tidy'']"
    by code_simp
  have a: "sentence_scores (summary_sentences ?t) =
     [(''The weather was nice on that day'', 0, 0),
      (''The landlord shall keep the house clean'', 2, 1),
      (''The tenant shall pay 500 dollars monthly'', 3, 2),
      (''The tenant shall keep the garden tidy'', 2, 3)]"
    unfolding u by code_simp
  have b: "selected_sentences (summary_sentences ?t) 2 =
     [(''The landlord shall keep the house clean'', 2, 1),
      (''The tenant shall pay 500 dollars monthly'', 3, 2)]"
    unfolding u by code_simp
  have c: "extractive_summarization ?t 2 =
     ''The landlord shall keep the house clean. The tenant shall pay 500 dollars monthly.''"
    by code_simp
  have h: "2 < int (length (summary_sentences ?t))"
    by (simp add: u)
  show ?thesis
    using extractive_selection [of 2 ?t, OF _ h] a b c by simp
qed

section \<open>Degenerate input: the claim\<close>

text \<open>
  Claim C4: on an empty or all-whitespace text, segmentation (with a known method and a
  non-zero step), the keyword scorer and the phrase matcher return the empty list, none
  of them raising; and whenever the text has no whitespace-separated word,
  \<^verbatim>\<open>generate_summary\<close> raises \<^verbatim>\<open>ZeroDivisionError\<close> at the compression ratio.
\<close>

theorem degenerate_input:
  "((\<forall>ch \<in> set text. is_space ch) \<longrightarrow>
       ((chunk_method c = ''words'' \<or> chunk_method c = ''sentences'' \<or> chunk_method c = ''paragraphs'')
           \<and> chunk_size c \<noteq> overlap c
         \<longrightarrow> process_document c text = Inr [])
     \<and> extract_statistical_keywords text min_freq max_keywords = []
     \<and> extract_key_phrases text max_phrases = [])
   \<and> (length (py_split text) = 0 \<longrightarrow>
        snd (generate_summary self text summary_type length_tier) = Inl ZeroDivisionError)"
proof (intro conjI impI)
  assume "\<forall>ch \<in> set text. is_space ch"
    and "(chunk_method c = ''words'' \<or> chunk_method c = ''sentences'' \<or> chunk_method c = ''paragraphs'')
           \<and> chunk_size c \<noteq> overlap c"
  then show "process_document c text = Inr []"
    by (intro process_document_spaces) auto
next
  assume "\<forall>ch \<in> set text. is_space ch"
  then show "extract_statistical_keywords text min_freq max_keywords = []"
    by (rule keywords_spaces)
next
  assume "\<forall>ch \<in> set text. is_space ch"
  then show "extract_key_phrases text max_phrases = []"
    by (rule phrases_spaces)
next
  assume "length (py_split text) = 0"
  then show "snd (generate_summary self text summary_type length_tier) = Inl ZeroDivisionError"
    by (intro generate_summary_no_words) simp
qed

text \<open>Claim C4 at a text of a space, a newline and a tab, and at the empty text.\<close>

theorem degenerate_input_witness:
  "process_document \<lparr>chunk_size = 200, overlap = 20, chunk_method = ''words''\<rparr>
       [CHR '' '', CHR 0x0A, CHR 0x09] = Inr []
   \<and> process_document \<lparr>chunk_size = 200, overlap = 20, chunk_method = ''paragraphs''\<rparr> [] = Inr []
   \<and> extract_statistical_keywords [CHR '' '', CHR 0x0A, CHR 0x09] 2 50 = []
   \<and> extract_key_phrases [CHR '' '', CHR 0x0A, CHR 0x09] 20 = []
   \<and> py_split [CHR '' '', CHR 0x0A, CHR 0x09] = []
   \<and> snd (generate_summary \<lparr>model_name = ''facebook/bart-large-cnn'', max_length = 150,
                              summarizer = None\<rparr>
            [CHR '' '', CHR 0x0A, CHR 0x09] ''extractive'' ''medium'') = Inl ZeroDivisionError"
proof -
  let ?t = "[CHR '' '', CHR 0x0A, CHR 0x09]"
  have s: "\<forall>ch \<in> set ?t. is_space ch"
    by (simp add: is_space_def code_def)
  have w: "py_split ?t = []"
    by code_simp
  show ?thesis
    using s w
      degenerate_input [of ?t "\<lparr>chunk_size = 200, overlap = 20, chunk_method = ''words''\<rparr>" 2 50 20
        "\<lparr>model_name = ''facebook/bart-large-cnn'', max_length = 150, summarizer = None\<rparr>"
        "''extractive''" "''medium''"]
      degenerate_input [of "[]" "\<lparr>chunk_size = 200, overlap = 20, chunk_method = ''paragraphs''\<rparr>"]
    by simp
qed

end
